theory Spec2Isabelle
  imports
    Main
    "HOL-Library.Word"
    "HOL-Library.AList"
    "HOL-Library.Multiset"
    "HOL-Library.Char_ord"
    "HOL-Library.List_Lexorder"
begin

section \<open>The service controller of xds-servicelb\<close>

text \<open>
  A shallow embedding of \<^verbatim>\<open>internal/controller/service_controller.go\<close>.
  What the controller reads from outside the file (the cluster API client, the parsers of
  Go's standard library, the randomised enumeration order of a Go map) is an explicit
  argument of the functions below. The package \<^verbatim>\<open>internal/graph\<close> (the exposure
  registry) is not part of the sources at hand and is modelled from the specification.
\<close>

subsection \<open>Addresses: \<^verbatim>\<open>net/netip\<close>\<close>

text \<open>
  A \<^verbatim>\<open>netip.Addr\<close> that \<^verbatim>\<open>netip.ParseAddr\<close> can return is an IPv4 address
  (32 bits) or an IPv6 address (128 bits, with a zone that may be empty). An IPv4-mapped
  IPv6 address is an IPv6 address: \<^verbatim>\<open>Is4\<close> is false for it.
\<close>

datatype Addr = Addr4 "32 word" | Addr6 "128 word" string

fun Is4 :: "Addr \<Rightarrow> bool" where
  "Is4 (Addr4 _) = True"
| "Is4 (Addr6 _ _) = False"

fun Is6 :: "Addr \<Rightarrow> bool" where
  "Is6 (Addr4 _) = False"
| "Is6 (Addr6 _ _) = True"

fun BitLen :: "Addr \<Rightarrow> nat" where
  "BitLen (Addr4 _) = 32"
| "BitLen (Addr6 _ _) = 128"

text \<open>The 128-bit value that \<^verbatim>\<open>Compare\<close> looks at; IPv4 is stored IPv4-mapped.\<close>

fun addr_bits :: "Addr \<Rightarrow> nat" where
  "addr_bits (Addr4 w) = 0xFFFF00000000 + unat w"
| "addr_bits (Addr6 w _) = unat w"

fun Zone :: "Addr \<Rightarrow> string" where
  "Zone (Addr4 _) = []"
| "Zone (Addr6 _ z) = z"

text \<open>
  \<^verbatim>\<open>Addr.Compare\<close>: the bit length first, then the bits, then, for IPv6, the zone
  (Go compares strings bytewise). \<^verbatim>\<open>Addr.Less\<close> is \<^verbatim>\<open>Compare == -1\<close>.
\<close>

definition Compare :: "Addr \<Rightarrow> Addr \<Rightarrow> int" where
  "Compare ip ip2 =
     (if BitLen ip < BitLen ip2 then -1
      else if BitLen ip > BitLen ip2 then 1
      else if addr_bits ip < addr_bits ip2 then -1
      else if addr_bits ip > addr_bits ip2 then 1
      else if Is6 ip \<and> Zone ip < Zone ip2 then -1
      else if Is6 ip \<and> Zone ip > Zone ip2 then 1
      else 0)"

definition Less :: "Addr \<Rightarrow> Addr \<Rightarrow> bool" where
  "Less ip ip2 = (Compare ip ip2 = -1)"

datatype AddrPort = AddrPortFrom (Addr: Addr) (Port: "16 word")

subsection \<open>Go runtime: ranging over a map, \<^verbatim>\<open>sort.Slice\<close>\<close>

text \<open>
  A Go map with finitely many keys is an association list with distinct keys; storing
  under a key replaces the value bound to it (\<^const>\<open>AList.update\<close>).

  \<^verbatim>\<open>for k, v := range m\<close> visits the entries in an order the runtime picks at random.
  The choice is the argument \<open>seed\<close>: \<open>range_map seed m\<close> is a permutation of the
  entries, and every permutation is the value at some seed.
\<close>

definition insert_at :: "nat \<Rightarrow> 'a \<Rightarrow> 'a list \<Rightarrow> 'a list" where
  "insert_at i x ys = take i ys @ x # drop i ys"

fun range_map :: "nat \<Rightarrow> 'a list \<Rightarrow> 'a list" where
  "range_map seed [] = []"
| "range_map seed (x # xs) =
     insert_at (seed mod Suc (length xs)) x (range_map (seed div Suc (length xs)) xs)"

text \<open>
  \<^verbatim>\<open>sort.Slice\<close> is not stable. On slices of at most 12 elements Go runs an
  insertion sort: each element moves left while it is less than its left neighbour.
  \<open>insert_left\<close> works on the reversed sorted prefix. Together with \<^const>\<open>range_map\<close>
  the results over all seeds are exactly the permutations ordered by the comparison, which is
  all that \<^verbatim>\<open>sort.Slice\<close> promises for longer slices.
\<close>

fun insert_left :: "('a \<Rightarrow> 'a \<Rightarrow> bool) \<Rightarrow> 'a \<Rightarrow> 'a list \<Rightarrow> 'a list" where
  "insert_left lt x [] = [x]"
| "insert_left lt x (y # ys) =
     (if lt x y then y # insert_left lt x ys else x # y # ys)"

definition sort_Slice :: "('a \<Rightarrow> 'a \<Rightarrow> bool) \<Rightarrow> 'a list \<Rightarrow> 'a list" where
  "sort_Slice lt xs = rev (foldl (\<lambda>acc x. insert_left lt x acc) [] xs)"

subsection \<open>Kubernetes objects and the configuration\<close>

text \<open>
  An \<^verbatim>\<open>int32\<close> is its 32 bits (two's complement); the controller only compares
  such values for equality and converts them: \<^verbatim>\<open>uint16(x)\<close> keeps the low 16 bits.
\<close>

type_synonym int32 = "32 word"

definition uint16 :: "int32 \<Rightarrow> 16 word" where
  "uint16 x = ucast x"

datatype IntOrStringType = IntT | StringT

record IntOrString =
  ios_Type :: IntOrStringType
  ios_IntVal :: int32
  ios_StrVal :: string

text \<open>\<^verbatim>\<open>corev1.ServicePort\<close>; \<^verbatim>\<open>corev1.Protocol\<close> is a string type.\<close>

record core_ServicePort =
  csp_Name :: string
  csp_Protocol :: string
  csp_Port :: int32
  csp_TargetPort :: IntOrString
  csp_NodePort :: int32

record LoadBalancerIngress =
  lbi_IP :: string
  lbi_Hostname :: string

record Service =
  svc_Namespace :: string
  svc_Name :: string
  svc_Annotations :: "(string \<times> string) list"
  svc_Type :: string
  svc_LoadBalancerClass :: "string option"
  svc_Ports :: "core_ServicePort list"
  svc_LoadBalancerSourceRanges :: "string list"
  svc_Ingress :: "LoadBalancerIngress list"

text \<open>Reading a Go \<^verbatim>\<open>map[string]string\<close> at an absent key gives the empty string.\<close>

definition annotation :: "Service \<Rightarrow> string \<Rightarrow> string" where
  "annotation svc k = (case map_of (svc_Annotations svc) k of None \<Rightarrow> [] | Some v \<Rightarrow> v)"

record EndpointPort =
  epp_Name :: "string option"
  epp_Port :: "int32 option"

record Endpoint =
  ep_Addresses :: "string list"
  ep_Ready :: "bool option"
  ep_NodeName :: "string option"

record EndpointSlice =
  es_AddressType :: string
  es_Ports :: "EndpointPort list"
  es_Endpoints :: "Endpoint list"

record NodeAddress =
  na_Type :: string
  na_Address :: string

record Node =
  node_Addresses :: "NodeAddress list"

datatype AddressSource = AddressSourceNode | AddressSourcePod

text \<open>
  An entry of \<^verbatim>\<open>Config.IngressStatus\<close>: \<open>is_IP\<close> is \<open>None\<close> for a nil
  \<^verbatim>\<open>net.IP\<close> and otherwise the text \<^verbatim>\<open>IP.String()\<close> renders.
\<close>

record IngressStatusEntry =
  is_IP :: "string option"
  is_Hostname :: string

text \<open>
  Modelled from the spec: \<^verbatim>\<open>internal.Config\<close> is declared outside the sources at
  hand; these are the fields the controller reads.
\<close>

record Config =
  LoadBalancerClass :: string
  AddressSource :: AddressSource
  NodeAddressType :: string
  UseIPv6Endpoints :: bool
  IngressStatus :: "IngressStatusEntry list"

subsection \<open>Errors and the outside world\<close>

datatype error =
    NotFound
  | ApiError string
  | ParseAddrError string
  | ParseDurationError string
  | ParsePrefixError string
  | noValidNodeAddressError
  | ServicePortNotFound

type_synonym Duration = int
type_synonym Prefix = "Addr \<times> nat"
type_synonym ServiceKey = "string \<times> string"

text \<open>
  What the controller calls outside the repository: the cluster API client
  (\<^verbatim>\<open>Get\<close>, \<^verbatim>\<open>List\<close>, \<^verbatim>\<open>Status().Update\<close>) and three parsers of Go's standard
  library. The reads answer from one snapshot of the cluster.
\<close>

record env =
  GetService :: "ServiceKey \<Rightarrow> error + Service"
  ListEndpointSlices :: "string \<Rightarrow> string \<Rightarrow> error + EndpointSlice list"
  GetNode :: "string \<Rightarrow> error + Node"
  StatusUpdate :: "Service \<Rightarrow> error option"
  ParseAddr :: "string \<Rightarrow> error + Addr"
  ParseDuration :: "string \<Rightarrow> error + Duration"
  ParsePrefix :: "string \<Rightarrow> error + Prefix"

subsection \<open>\<^verbatim>\<open>getNodeAddress\<close>\<close>

fun scanNodeAddresses :: "env \<Rightarrow> Config \<Rightarrow> NodeAddress list \<Rightarrow> error + Addr" where
  "scanNodeAddresses e cfg [] = Inl noValidNodeAddressError"
| "scanNodeAddresses e cfg (addr # rest) =
     (if na_Type addr \<noteq> NodeAddressType cfg then scanNodeAddresses e cfg rest
      else case ParseAddr e (na_Address addr) of
        Inl err \<Rightarrow> scanNodeAddresses e cfg rest
      | Inr ip \<Rightarrow>
          if UseIPv6Endpoints cfg \<and> Is6 ip then Inr ip
          else if \<not> UseIPv6Endpoints cfg \<and> Is4 ip then Inr ip
          else scanNodeAddresses e cfg rest)"

definition getNodeAddress :: "env \<Rightarrow> Config \<Rightarrow> string \<Rightarrow> error + Addr" where
  "getNodeAddress e cfg nodeName =
     (case GetNode e nodeName of
        Inl err \<Rightarrow> Inl err
      | Inr node \<Rightarrow> scanNodeAddresses e cfg (node_Addresses node))"

subsection \<open>Types of the exposure registry (\<^verbatim>\<open>internal/graph\<close>)\<close>

text \<open>
  Modelled from the spec: the declarations of \<^verbatim>\<open>graph.ServicePort\<close>,
  \<^verbatim>\<open>graph.ServiceEndpoint\<close>, \<^verbatim>\<open>graph.ServicePortData\<close> and
  \<^verbatim>\<open>graph.ServiceData\<close> are missing; the fields are those the controller fills in.
  The protocol is \<^verbatim>\<open>net.TCP\<close> or \<^verbatim>\<open>net.UDP\<close>, the strings \<^verbatim>\<open>"TCP"\<close> and
  \<^verbatim>\<open>"UDP"\<close>. \<^verbatim>\<open>ServiceData.Ports\<close> is a Go map.
\<close>

datatype Protocol = TCP | UDP

fun Protocol_string :: "Protocol \<Rightarrow> string" where
  "Protocol_string TCP = ''TCP''"
| "Protocol_string UDP = ''UDP''"

datatype ServicePort = ServicePort (sp_Port: int32) (sp_Protocol: Protocol)

datatype ServiceEndpoint = ServiceEndpoint (se_AddrPort: AddrPort) (se_Protocol: Protocol)

record ServicePortData =
  Endpoints :: "ServiceEndpoint list"
  UseProxyProtocol :: bool
  IdleTimeout :: "Duration option"
  AllowedIPRanges :: "Prefix list"

type_synonym ServiceData = "(ServicePort \<times> ServicePortData) list"

definition NewServiceData :: ServiceData where
  "NewServiceData = []"

subsection \<open>\<^verbatim>\<open>buildEndpoints\<close>\<close>

type_synonym ips = "(AddrPort \<times> bool) list"

fun findServicePort :: "core_ServicePort list \<Rightarrow> ServicePort \<Rightarrow> core_ServicePort option" where
  "findServicePort [] port = None"
| "findServicePort (sp # rest) port =
     (if csp_Port sp = sp_Port port \<and> csp_Protocol sp = Protocol_string (sp_Protocol port)
      then Some sp else findServicePort rest port)"

fun findEndpointPort :: "EndpointPort list \<Rightarrow> core_ServicePort \<Rightarrow> EndpointPort option" where
  "findEndpointPort [] svcPort = None"
| "findEndpointPort (epp # rest) svcPort =
     (if (case epp_Name epp of Some n \<Rightarrow> csp_Name svcPort = n | None \<Rightarrow> csp_Name svcPort = [])
      then Some epp else findEndpointPort rest svcPort)"

text \<open>
  The port number of the matched slice port; when the slice gives none, the Service's
  target port if it is numeric, and otherwise the slice is skipped (\<open>None\<close>).
\<close>

definition endpointPortNumber :: "core_ServicePort \<Rightarrow> EndpointPort \<Rightarrow> int32 option" where
  "endpointPortNumber svcPort epPort =
     (case epp_Port epPort of
        Some p \<Rightarrow> Some p
      | None \<Rightarrow>
          if ios_Type (csp_TargetPort svcPort) = StringT then None
          else Some (ios_IntVal (csp_TargetPort svcPort)))"

definition sliceSelected :: "Config \<Rightarrow> EndpointSlice \<Rightarrow> bool" where
  "sliceSelected cfg es \<longleftrightarrow>
     (es_AddressType es = ''IPv6'' \<and> UseIPv6Endpoints cfg) \<or>
     (es_AddressType es = ''IPv4'' \<and> \<not> UseIPv6Endpoints cfg)"

definition readiness :: "Endpoint \<Rightarrow> bool" where
  "readiness ep = (case ep_Ready ep of None \<Rightarrow> True | Some b \<Rightarrow> b)"

text \<open>Pod mode, the loop over \<^verbatim>\<open>ep.Addresses\<close>: a parse error ends the resolution.\<close>

fun addAddresses :: "env \<Rightarrow> int32 \<Rightarrow> bool \<Rightarrow> string list \<Rightarrow> ips \<Rightarrow> error + ips" where
  "addAddresses e p ready [] m = Inr m"
| "addAddresses e p ready (addr # rest) m =
     (case ParseAddr e addr of
        Inl err \<Rightarrow> Inl err
      | Inr ip \<Rightarrow> addAddresses e p ready rest (AList.update (AddrPortFrom ip (uint16 p)) ready m))"

text \<open>The loop over \<^verbatim>\<open>es.Endpoints\<close>; \<open>p\<close> is \<^verbatim>\<open>*epPort.Port\<close>.\<close>

fun addEndpoints ::
  "env \<Rightarrow> Config \<Rightarrow> core_ServicePort \<Rightarrow> int32 \<Rightarrow> Endpoint list \<Rightarrow> ips \<Rightarrow> error + ips" where
  "addEndpoints e cfg svcPort p [] m = Inr m"
| "addEndpoints e cfg svcPort p (ep # rest) m =
     (if AddressSource cfg = AddressSourceNode then
        (case ep_NodeName ep of
           None \<Rightarrow> addEndpoints e cfg svcPort p rest m
         | Some nodeName \<Rightarrow>
             if csp_NodePort svcPort \<noteq> 0 then
               (case getNodeAddress e cfg nodeName of
                  Inl err \<Rightarrow> addEndpoints e cfg svcPort p rest m
                | Inr ip \<Rightarrow>
                    addEndpoints e cfg svcPort p rest
                      (AList.update (AddrPortFrom ip (uint16 (csp_NodePort svcPort)))
                         (readiness ep) m))
             else addEndpoints e cfg svcPort p rest m)
      else
        (case addAddresses e p (readiness ep) (ep_Addresses ep) m of
           Inl err \<Rightarrow> Inl err
         | Inr m' \<Rightarrow> addEndpoints e cfg svcPort p rest m'))"

text \<open>The loop over \<^verbatim>\<open>esList.Items\<close>.\<close>

fun addSlices ::
  "env \<Rightarrow> Config \<Rightarrow> core_ServicePort \<Rightarrow> EndpointSlice list \<Rightarrow> ips \<Rightarrow> error + ips" where
  "addSlices e cfg svcPort [] m = Inr m"
| "addSlices e cfg svcPort (es # rest) m =
     (if \<not> sliceSelected cfg es then addSlices e cfg svcPort rest m
      else case findEndpointPort (es_Ports es) svcPort of
        None \<Rightarrow> addSlices e cfg svcPort rest m
      | Some epPort \<Rightarrow>
          (case endpointPortNumber svcPort epPort of
             None \<Rightarrow> addSlices e cfg svcPort rest m
           | Some p \<Rightarrow>
               (case addEndpoints e cfg svcPort p (es_Endpoints es) m of
                  Inl err \<Rightarrow> Inl err
                | Inr m' \<Rightarrow> addSlices e cfg svcPort rest m')))"

text \<open>The first half of \<^verbatim>\<open>buildEndpoints\<close>, up to the filled map \<^verbatim>\<open>ips\<close>.\<close>

definition collectIPs :: "env \<Rightarrow> Config \<Rightarrow> Service \<Rightarrow> ServicePort \<Rightarrow> error + ips" where
  "collectIPs e cfg svc port =
     (case findServicePort (svc_Ports svc) port of
        None \<Rightarrow> Inl ServicePortNotFound
      | Some svcPort \<Rightarrow>
          (case ListEndpointSlices e (svc_Namespace svc) (svc_Name svc) of
             Inl err \<Rightarrow> Inl err
           | Inr items \<Rightarrow> addSlices e cfg svcPort items []))"

text \<open>
  The second half: range over the map keeping the ready keys, sort by address, wrap.
  \<open>seed\<close> is the order in which the runtime enumerates the map in this call.
\<close>

definition emitEndpoints :: "nat \<Rightarrow> Protocol \<Rightarrow> ips \<Rightarrow> ServiceEndpoint list" where
  "emitEndpoints seed proto m =
     map (\<lambda>ip. ServiceEndpoint ip proto)
       (sort_Slice (\<lambda>a b. Less (Addr a) (Addr b))
          (map fst (filter snd (range_map seed m))))"

definition buildEndpoints ::
  "env \<Rightarrow> Config \<Rightarrow> nat \<Rightarrow> Service \<Rightarrow> ServicePort \<Rightarrow> error + ServiceEndpoint list" where
  "buildEndpoints e cfg seed svc port =
     (case collectIPs e cfg svc port of
        Inl err \<Rightarrow> Inl err
      | Inr m \<Rightarrow> Inr (emitEndpoints seed (sp_Protocol port) m))"

subsection \<open>\<^verbatim>\<open>buildServiceData\<close>\<close>

definition proxyProtocolAnnotation :: string where
  "proxyProtocolAnnotation = ''xds-servicelb.eplight.org/use-proxy-protocol''"

definition idleTimeoutAnnotation :: string where
  "idleTimeoutAnnotation = ''xds-servicelb.eplight.org/idle-timeout''"

definition parseIdleTimeout :: "env \<Rightarrow> Service \<Rightarrow> error + Duration option" where
  "parseIdleTimeout e svc =
     (if annotation svc idleTimeoutAnnotation \<noteq> [] then
        (case ParseDuration e (annotation svc idleTimeoutAnnotation) of
           Inl err \<Rightarrow> Inl err
         | Inr dur \<Rightarrow> Inr (Some dur))
      else Inr None)"

fun parseSourceRanges :: "env \<Rightarrow> string list \<Rightarrow> Prefix list \<Rightarrow> error + Prefix list" where
  "parseSourceRanges e [] allowed = Inr allowed"
| "parseSourceRanges e (ip # rest) allowed =
     (case ParsePrefix e ip of
        Inl err \<Rightarrow> Inl err
      | Inr prefix \<Rightarrow> parseSourceRanges e rest (allowed @ [prefix]))"

text \<open>
  The loop over \<^verbatim>\<open>ports\<close>. Each call of \<^verbatim>\<open>buildEndpoints\<close> ranges over a map of
  its own; \<open>rand port\<close> is the enumeration order in the call for \<open>port\<close> (were a port
  listed twice, the later call overwrites what the earlier one stored).
\<close>

fun buildPorts ::
  "env \<Rightarrow> Config \<Rightarrow> (ServicePort \<Rightarrow> nat) \<Rightarrow> Service \<Rightarrow> bool \<Rightarrow> Duration option \<Rightarrow> Prefix list \<Rightarrow>
   ServicePort list \<Rightarrow> ServiceData \<Rightarrow> error + ServiceData" where
  "buildPorts e cfg rand svc useProxyProtocol idleTimeout allowed [] data = Inr data"
| "buildPorts e cfg rand svc useProxyProtocol idleTimeout allowed (port # rest) data =
     (case buildEndpoints e cfg (rand port) svc port of
        Inl err \<Rightarrow> Inl err
      | Inr endpoints \<Rightarrow>
          buildPorts e cfg rand svc useProxyProtocol idleTimeout allowed rest
            (AList.update port
               \<lparr>Endpoints = endpoints, UseProxyProtocol = useProxyProtocol,
                IdleTimeout = idleTimeout, AllowedIPRanges = allowed\<rparr> data))"

definition buildServiceData ::
  "env \<Rightarrow> Config \<Rightarrow> (ServicePort \<Rightarrow> nat) \<Rightarrow> Service \<Rightarrow> ServicePort list \<Rightarrow> error + ServiceData" where
  "buildServiceData e cfg rand svc ports =
     (let useProxyProtocol = (annotation svc proxyProtocolAnnotation = ''true'') in
      case parseIdleTimeout e svc of
        Inl err \<Rightarrow> Inl err
      | Inr idleTimeout \<Rightarrow>
          (case parseSourceRanges e (svc_LoadBalancerSourceRanges svc) [] of
             Inl err \<Rightarrow> Inl err
           | Inr allowed \<Rightarrow>
               buildPorts e cfg rand svc useProxyProtocol idleTimeout allowed ports
                 NewServiceData))"

subsection \<open>\<^verbatim>\<open>getServicePorts\<close>, \<^verbatim>\<open>shouldManage\<close>, \<^verbatim>\<open>updateStatus\<close>\<close>

fun getServicePorts_loop :: "core_ServicePort list \<Rightarrow> ServicePort list \<Rightarrow> ServicePort list" where
  "getServicePorts_loop [] ports = ports"
| "getServicePorts_loop (port # rest) ports =
     (if csp_Protocol port = ''TCP'' then
        getServicePorts_loop rest (ports @ [ServicePort (csp_Port port) TCP])
      else if csp_Protocol port = ''UDP'' then
        getServicePorts_loop rest (ports @ [ServicePort (csp_Port port) UDP])
      else getServicePorts_loop rest ports)"

definition getServicePorts :: "Service \<Rightarrow> ServicePort list" where
  "getServicePorts svc = getServicePorts_loop (svc_Ports svc) []"

definition shouldManage :: "Config \<Rightarrow> Service \<Rightarrow> bool" where
  "shouldManage cfg svc =
     (if svc_Type svc \<noteq> ''LoadBalancer'' then False
      else
        let svcClass = (case svc_LoadBalancerClass svc of None \<Rightarrow> [] | Some c \<Rightarrow> c) in
        if svcClass \<noteq> LoadBalancerClass cfg then False else True)"

definition ingressOf :: "IngressStatusEntry \<Rightarrow> LoadBalancerIngress" where
  "ingressOf addr =
     (case is_IP addr of
        Some ip \<Rightarrow> \<lparr>lbi_IP = ip, lbi_Hostname = []\<rparr>
      | None \<Rightarrow> \<lparr>lbi_IP = [], lbi_Hostname = is_Hostname addr\<rparr>)"

text \<open>\<^verbatim>\<open>updateStatus\<close> returns the Service it sends and what the API answers.\<close>

definition updateStatus :: "env \<Rightarrow> Config \<Rightarrow> Service \<Rightarrow> Service \<times> error option" where
  "updateStatus e cfg svc =
     (let svc' = svc\<lparr>svc_Ingress := map ingressOf (IngressStatus cfg)\<rparr>
      in (svc', StatusUpdate e svc'))"

subsection \<open>The exposure registry\<close>

text \<open>
  Modelled from the spec: the package \<^verbatim>\<open>internal/graph\<close> with \<^verbatim>\<open>ServiceGraph\<close>,
  \<^verbatim>\<open>Conflicts\<close>, \<^verbatim>\<open>UpdateService\<close> and \<^verbatim>\<open>RemoveService\<close> is missing. The state
  is the owners map, the ownership index and the version counter. Each operation is
  one atomic step.
\<close>

record ServiceGraph =
  owners :: "ServiceKey \<rightharpoonup> ServiceData"
  index :: "ServicePort \<rightharpoonup> ServiceKey"
  version :: nat

definition emptyGraph :: ServiceGraph where
  "emptyGraph = \<lparr>owners = Map.empty, index = Map.empty, version = 0\<rparr>"

text \<open>
  Modelled from the spec: \<^verbatim>\<open>Conflicts(owner, port)\<close> is true iff \<open>port\<close> is currently
  claimed by some key other than \<open>owner\<close>.
\<close>

definition Conflicts :: "ServiceGraph \<Rightarrow> ServiceKey \<Rightarrow> ServicePort \<Rightarrow> bool" where
  "Conflicts g owner port = (case index g port of None \<Rightarrow> False | Some k \<Rightarrow> k \<noteq> owner)"

text \<open>
  Modelled from the spec: \<^verbatim>\<open>UpdateService(owner, data)\<close> (a) rejects the update when a
  port of \<open>data\<close> is claimed by a different owner, and otherwise (b) releases every port
  held by \<open>owner\<close> that is absent from \<open>data\<close>, (c) claims every port of \<open>data\<close> for
  \<open>owner\<close>, (d) replaces the stored data of \<open>owner\<close> and (e) bumps the version.
\<close>

definition UpdateService :: "ServiceGraph \<Rightarrow> ServiceKey \<Rightarrow> ServiceData \<Rightarrow> ServiceGraph" where
  "UpdateService g owner data =
     (if list_ex (Conflicts g owner) (map fst data) then g
      else
        \<lparr>owners = (owners g)(owner \<mapsto> data),
         index = (\<lambda>p. if p \<in> fst ` set data then Some owner
                       else if index g p = Some owner then None
                       else index g p),
         version = Suc (version g)\<rparr>)"

text \<open>
  Modelled from the spec: \<^verbatim>\<open>RemoveService(owner)\<close> deletes the entry of \<open>owner\<close> and
  releases all ports it held; removing an absent owner is a no-op.
\<close>

definition RemoveService :: "ServiceGraph \<Rightarrow> ServiceKey \<Rightarrow> ServiceGraph" where
  "RemoveService g owner =
     (case owners g owner of
        None \<Rightarrow> g
      | Some old \<Rightarrow>
          \<lparr>owners = (owners g)(owner := None),
           index = (\<lambda>p. if index g p = Some owner then None else index g p),
           version = Suc (version g)\<rparr>)"

subsection \<open>\<^verbatim>\<open>Reconcile\<close>\<close>

text \<open>
  What one pass does to its surroundings: the registry it shares with the other passes,
  and, in order, the calls it makes that act or resolve (the event recorder, the two
  mutating registry operations, \<^verbatim>\<open>buildServiceData\<close>, the status write).
  \<open>Eventf\<close> holds the arguments of \<^verbatim>\<open>recorder.Eventf\<close>: the object, the event
  type, the reason, the message format, and the port whose \<^verbatim>\<open>String()\<close> fills the
  \<^verbatim>\<open>%v\<close> of the format (\<^verbatim>\<open>ServicePort.String\<close> belongs to the missing package).
\<close>

datatype action =
    Eventf Service string string string ServicePort
  | CallRemoveService ServiceKey
  | CallBuildServiceData ServiceKey
  | CallUpdateService ServiceKey ServiceData
  | CallStatusUpdate Service

record world =
  graph :: ServiceGraph
  trace :: "action list"

record Result =
  RequeueAfter :: Duration

definition Minute :: Duration where
  "Minute = 60 * 1000000000"

fun IsNotFound :: "error \<Rightarrow> bool" where
  "IsNotFound NotFound = True"
| "IsNotFound _ = False"

definition IgnoreNotFound :: "error \<Rightarrow> error option" where
  "IgnoreNotFound err = (if IsNotFound err then None else Some err)"

text \<open>The loop over \<^verbatim>\<open>ports\<close> that probes for conflicts: the first conflicting port.\<close>

fun firstConflict :: "ServiceGraph \<Rightarrow> ServiceKey \<Rightarrow> ServicePort list \<Rightarrow> ServicePort option" where
  "firstConflict g key [] = None"
| "firstConflict g key (port # rest) =
     (if Conflicts g key port then Some port else firstConflict g key rest)"

definition act :: "action \<Rightarrow> world \<Rightarrow> world" where
  "act a w = w\<lparr>trace := trace w @ [a]\<rparr>"

definition Reconcile ::
  "env \<Rightarrow> Config \<Rightarrow> (ServicePort \<Rightarrow> nat) \<Rightarrow> ServiceKey \<Rightarrow> world \<Rightarrow> world \<times> Result \<times> error option" where
  "Reconcile e cfg rand req w =
     (case GetService e req of
        Inl err \<Rightarrow>
          (if IsNotFound err
           then (act (CallRemoveService req) (w\<lparr>graph := RemoveService (graph w) req\<rparr>),
                 \<lparr>RequeueAfter = 0\<rparr>, IgnoreNotFound err)
           else (w, \<lparr>RequeueAfter = 0\<rparr>, IgnoreNotFound err))
      | Inr svc \<Rightarrow>
          if \<not> shouldManage cfg svc then (w, \<lparr>RequeueAfter = 0\<rparr>, None)
          else
            let ports = getServicePorts svc in
            (case firstConflict (graph w) req ports of
               Some port \<Rightarrow>
                 (act (Eventf svc ''Warning'' ''Conflict''
                         ''Service could not be allocated due to a conflicting port %v'' port) w,
                  \<lparr>RequeueAfter = 1 * Minute\<rparr>, None)
             | None \<Rightarrow>
                 let w1 = act (CallBuildServiceData req) w in
                 (case buildServiceData e cfg rand svc ports of
                    Inl err \<Rightarrow> (w1, \<lparr>RequeueAfter = 0\<rparr>, Some err)
                  | Inr data \<Rightarrow>
                      let w2 = act (CallUpdateService req data)
                                 (w1\<lparr>graph := UpdateService (graph w1) req data\<rparr>);
                          (svc', res) = updateStatus e cfg svc;
                          w3 = act (CallStatusUpdate svc') w2
                      in (case res of
                            Some err \<Rightarrow> (w3, \<lparr>RequeueAfter = 0\<rparr>, Some err)
                          | None \<Rightarrow> (w3, \<lparr>RequeueAfter = 0\<rparr>, None)))))"

subsection \<open>Definitions used in the statements\<close>

text \<open>The comparison handed to a sort has to be a strict weak order.\<close>

definition strict_weak_order :: "('a \<Rightarrow> 'a \<Rightarrow> bool) \<Rightarrow> bool" where
  "strict_weak_order lt \<longleftrightarrow>
     (\<forall>a b. lt a b \<longrightarrow> \<not> lt b a) \<and> (\<forall>a b c. \<not> lt a b \<longrightarrow> \<not> lt b c \<longrightarrow> \<not> lt a c)"

text \<open>
  Node-address resolution in the words of the specification: the first address, in listed
  order, whose type is the configured one, that parses, and whose family is the configured
  one; the error \<open>noValidNodeAddressError\<close> when there is none.
\<close>

definition nodeAddressMatches :: "env \<Rightarrow> Config \<Rightarrow> NodeAddress \<Rightarrow> bool" where
  "nodeAddressMatches e cfg a \<longleftrightarrow>
     na_Type a = NodeAddressType cfg \<and>
     (case ParseAddr e (na_Address a) of
        Inl err \<Rightarrow> False
      | Inr ip \<Rightarrow> Is6 ip = UseIPv6Endpoints cfg)"

definition firstMatchingNodeAddress :: "env \<Rightarrow> Config \<Rightarrow> NodeAddress list \<Rightarrow> error + Addr" where
  "firstMatchingNodeAddress e cfg addrs =
     (case List.find (nodeAddressMatches e cfg) addrs of
        None \<Rightarrow> Inl noValidNodeAddressError
      | Some a \<Rightarrow> ParseAddr e (na_Address a))"

text \<open>
  The standard library on the strings of the examples: four addresses, one duration and one
  prefix parse. Everything else is rejected, as Go rejects \<^verbatim>\<open>"bogus"\<close>,
  \<^verbatim>\<open>"30x"\<close> and the empty string.
\<close>

definition ex_parse :: "string \<Rightarrow> error + Addr" where
  "ex_parse s =
     (if s = ''10.0.0.5'' then Inr (Addr4 0x0A000005)
      else if s = ''10.0.0.6'' then Inr (Addr4 0x0A000006)
      else if s = ''1.2.3.4'' then Inr (Addr4 0x01020304)
      else if s = ''fd00::5'' then Inr (Addr6 0xFD000000000000000000000000000005 [])
      else Inl (ParseAddrError s))"

definition ex_duration :: "string \<Rightarrow> error + Duration" where
  "ex_duration s = (if s = ''30s'' then Inr (30 * 1000000000) else Inl (ParseDurationError s))"

definition ex_prefix :: "string \<Rightarrow> error + Prefix" where
  "ex_prefix s =
     (if s = ''10.0.0.0/8'' then Inr (Addr4 0x0A000000, 8) else Inl (ParsePrefixError s))"

text \<open>A cluster that holds one Service, its slices, its nodes; the status write answers \<open>st\<close>.\<close>

definition ex_env ::
  "Service \<Rightarrow> EndpointSlice list \<Rightarrow> (string \<times> Node) list \<Rightarrow> error option \<Rightarrow> env" where
  "ex_env svc items nodes st =
     \<lparr>GetService =
        (\<lambda>k. if k = (svc_Namespace svc, svc_Name svc) then Inr svc else Inl NotFound),
      ListEndpointSlices =
        (\<lambda>ns n. if (ns, n) = (svc_Namespace svc, svc_Name svc) then Inr items else Inr []),
      GetNode = (\<lambda>n. case map_of nodes n of None \<Rightarrow> Inl NotFound | Some node \<Rightarrow> Inr node),
      StatusUpdate = (\<lambda>s. st),
      ParseAddr = ex_parse,
      ParseDuration = ex_duration,
      ParsePrefix = ex_prefix\<rparr>"

definition ex_cfg :: "AddressSource \<Rightarrow> Config" where
  "ex_cfg src =
     \<lparr>LoadBalancerClass = [], AddressSource = src, NodeAddressType = ''InternalIP'',
      UseIPv6Endpoints = False,
      IngressStatus = [\<lparr>is_IP = Some ''192.0.2.1'', is_Hostname = []\<rparr>]\<rparr>"

text \<open>The Service \<^verbatim>\<open>web\<close>: type LoadBalancer, no class, port 80/TCP, node port 30080.\<close>

definition ex_port :: core_ServicePort where
  "ex_port =
     \<lparr>csp_Name = [], csp_Protocol = ''TCP'', csp_Port = 80,
      csp_TargetPort = \<lparr>ios_Type = IntT, ios_IntVal = 8080, ios_StrVal = []\<rparr>,
      csp_NodePort = 30080\<rparr>"

definition ex_svc :: "(string \<times> string) list \<Rightarrow> string list \<Rightarrow> Service" where
  "ex_svc anns ranges =
     \<lparr>svc_Namespace = ''default'', svc_Name = ''web'', svc_Annotations = anns,
      svc_Type = ''LoadBalancer'', svc_LoadBalancerClass = None, svc_Ports = [ex_port],
      svc_LoadBalancerSourceRanges = ranges, svc_Ingress = []\<rparr>"

definition ex_endpoint :: "string \<Rightarrow> bool option \<Rightarrow> string option \<Rightarrow> Endpoint" where
  "ex_endpoint addr ready node =
     \<lparr>ep_Addresses = [addr], ep_Ready = ready, ep_NodeName = node\<rparr>"

definition ex_slice :: "int32 \<Rightarrow> Endpoint list \<Rightarrow> EndpointSlice" where
  "ex_slice p eps =
     \<lparr>es_AddressType = ''IPv4'', es_Ports = [\<lparr>epp_Name = None, epp_Port = Some p\<rparr>],
      es_Endpoints = eps\<rparr>"

definition ex_node :: "(string \<times> string) list \<Rightarrow> Node" where
  "ex_node addrs = \<lparr>node_Addresses = map (\<lambda>(t, a). \<lparr>na_Type = t, na_Address = a\<rparr>) addrs\<rparr>"

text \<open>
  Duplicate addresses with mixed readiness over two slices, and a slice with nothing ready.
\<close>

definition ex_dup_items :: "EndpointSlice list" where
  "ex_dup_items =
     [ex_slice 8080
        [ex_endpoint ''10.0.0.6'' (Some True) None, ex_endpoint ''10.0.0.5'' None None,
         ex_endpoint ''1.2.3.4'' (Some False) None, ex_endpoint ''10.0.0.6'' (Some True) None],
      ex_slice 8080
        [ex_endpoint ''10.0.0.5'' (Some False) None, ex_endpoint ''10.0.0.5'' (Some True) None]]"

definition ex_unready_items :: "EndpointSlice list" where
  "ex_unready_items = [ex_slice 8080 [ex_endpoint ''10.0.0.5'' (Some False) None]]"

text \<open>
  Node mode: the endpoints whose node address cannot be resolved, a slice without them, and
  where a key of the map comes from.
\<close>

definition unresolvable :: "env \<Rightarrow> Config \<Rightarrow> Endpoint \<Rightarrow> bool" where
  "unresolvable e cfg ep =
     (case ep_NodeName ep of None \<Rightarrow> False | Some n \<Rightarrow> isl (getNodeAddress e cfg n))"

definition dropUnresolvable :: "env \<Rightarrow> Config \<Rightarrow> EndpointSlice \<Rightarrow> EndpointSlice" where
  "dropUnresolvable e cfg es =
     es\<lparr>es_Endpoints := filter (\<lambda>ep. \<not> unresolvable e cfg ep) (es_Endpoints es)\<rparr>"

definition nodeOrigin ::
  "env \<Rightarrow> Config \<Rightarrow> core_ServicePort \<Rightarrow> Endpoint list \<Rightarrow> AddrPort \<Rightarrow> bool" where
  "nodeOrigin e cfg svcPort eps k \<longleftrightarrow>
     csp_NodePort svcPort \<noteq> 0 \<and> Port k = uint16 (csp_NodePort svcPort) \<and>
     (\<exists>ep\<in>set eps. \<exists>n. ep_NodeName ep = Some n \<and> getNodeAddress e cfg n = Inr (Addr k))"

definition ex_node_items :: "EndpointSlice list" where
  "ex_node_items =
     [ex_slice 8080
        [ex_endpoint ''172.16.0.9'' (Some True) (Some ''n1''),
         ex_endpoint ''172.16.0.10'' (Some True) (Some ''n2''),
         ex_endpoint ''172.16.0.11'' (Some True) None]]"

definition ex_nodes :: "(string \<times> Node) list" where
  "ex_nodes = [(''n1'', ex_node [(''InternalIP'', ''10.0.0.5''), (''ExternalIP'', ''1.2.3.4'')])]"

definition ex_bogus_items :: "EndpointSlice list" where
  "ex_bogus_items =
     [ex_slice 8080
        [ex_endpoint ''10.0.0.5'' None None, ex_endpoint ''bogus'' None None,
         ex_endpoint ''10.0.0.6'' None None]]"

definition ex_two_port_items :: "EndpointSlice list" where
  "ex_two_port_items =
     [ex_slice 8080 [ex_endpoint ''10.0.0.5'' (Some True) None],
      ex_slice 8081 [ex_endpoint ''10.0.0.5'' (Some True) None]]"

subsection \<open>Ownership in the registry\<close>

text \<open>
  A key owns a port when the port is in the data stored for the key. The states of the
  registry are those reached from the empty one by the two mutating operations.
\<close>

definition owns :: "ServiceGraph \<Rightarrow> ServiceKey \<Rightarrow> ServicePort \<Rightarrow> bool" where
  "owns g k p = (case owners g k of None \<Rightarrow> False | Some d \<Rightarrow> p \<in> fst ` set d)"

inductive reachable :: "ServiceGraph \<Rightarrow> bool" where
  reachable_empty: "reachable emptyGraph"
| reachable_update: "reachable g \<Longrightarrow> reachable (UpdateService g owner data)"
| reachable_remove: "reachable g \<Longrightarrow> reachable (RemoveService g owner)"

text \<open>Two keys, and a registry in which \<^verbatim>\<open>default/other\<close> holds 80/TCP.\<close>

definition ex_portData :: ServicePortData where
  "ex_portData = \<lparr>Endpoints = [], UseProxyProtocol = False, IdleTimeout = None,
                  AllowedIPRanges = []\<rparr>"

definition ex_web :: ServiceKey where
  "ex_web = (''default'', ''web'')"

definition ex_other :: ServiceKey where
  "ex_other = (''default'', ''other'')"

definition ex_graph :: ServiceGraph where
  "ex_graph = UpdateService emptyGraph ex_other [(ServicePort 80 TCP, ex_portData)]"

text \<open>The protocol of an accepted Service port, \<open>None\<close> for a port that is dropped.\<close>

definition acceptedProtocol :: "core_ServicePort \<Rightarrow> Protocol option" where
  "acceptedProtocol sp =
     (if csp_Protocol sp = ''TCP'' then Some TCP
      else if csp_Protocol sp = ''UDP'' then Some UDP else None)"

text \<open>Annotations for the examples.\<close>

definition ex_settings :: "(string \<times> string) list" where
  "ex_settings =
     [(''xds-servicelb.eplight.org/use-proxy-protocol'', ''true''),
      (''xds-servicelb.eplight.org/idle-timeout'', ''30s'')]"

subsection \<open>Settings that do not parse\<close>

text \<open>
  The settings of a Service are malformed when the idle-timeout annotation is a non-empty
  string that \<^verbatim>\<open>time.ParseDuration\<close> rejects, or when an entry of
  \<^verbatim>\<open>loadBalancerSourceRanges\<close> is rejected by \<^verbatim>\<open>netip.ParsePrefix\<close>; a settings error is
  an error one of the two parsers returns.
\<close>

definition malformedSettings :: "env \<Rightarrow> Service \<Rightarrow> bool" where
  "malformedSettings e svc \<longleftrightarrow>
     (annotation svc idleTimeoutAnnotation \<noteq> [] \<and>
      isl (ParseDuration e (annotation svc idleTimeoutAnnotation))) \<or>
     (\<exists>r\<in>set (svc_LoadBalancerSourceRanges svc). isl (ParsePrefix e r))"

definition settingsError :: "env \<Rightarrow> error \<Rightarrow> bool" where
  "settingsError e err \<longleftrightarrow>
     (\<exists>s. ParseDuration e s = Inl err) \<or> (\<exists>s. ParsePrefix e s = Inl err)"

definition isUpdateService :: "action \<Rightarrow> bool" where
  "isUpdateService a = (case a of CallUpdateService k d \<Rightarrow> True | _ \<Rightarrow> False)"

definition ex_idle :: "string \<Rightarrow> (string \<times> string) list" where
  "ex_idle v = [(''xds-servicelb.eplight.org/idle-timeout'', v)]"

definition ex_clusterIP :: Service where
  "ex_clusterIP = (ex_svc (ex_idle ''30x'') [])\<lparr>svc_Type := ''ClusterIP''\<rparr>"

section \<open>Properties\<close>

subsection \<open>Ranging and sorting\<close>

lemma mset_insert_left: "mset (insert_left lt x ys) = add_mset x (mset ys)"
  by (induction ys) simp_all

lemma set_insert_left: "set (insert_left lt x ys) = insert x (set ys)"
  by (induction ys) auto

lemma swo_asym: "strict_weak_order lt \<Longrightarrow> lt a b \<Longrightarrow> \<not> lt b a"
  unfolding strict_weak_order_def by blast

lemma swo_negtrans: "strict_weak_order lt \<Longrightarrow> \<not> lt a b \<Longrightarrow> \<not> lt b c \<Longrightarrow> \<not> lt a c"
  unfolding strict_weak_order_def by blast

lemma sorted_insert_left:
  assumes swo: "strict_weak_order lt"
  shows "sorted_wrt (\<lambda>a b. \<not> lt a b) ys \<Longrightarrow>
   sorted_wrt (\<lambda>a b. \<not> lt a b) (insert_left lt x ys)"
proof (induction ys)
  case Nil
  then show ?case by simp
next
  case (Cons y ys)
  show ?case
  proof (cases "lt x y")
    case True
    have "\<not> lt y x" using swo True by (rule swo_asym)
    with True Cons show ?thesis
      by (simp add: set_insert_left)
  next
    case False
    have "\<forall>z\<in>set ys. \<not> lt x z"
    proof
      fix z assume "z \<in> set ys"
      with Cons.prems have "\<not> lt y z" by simp
      with swo False show "\<not> lt x z" by (rule swo_negtrans)
    qed
    with False Cons.prems show ?thesis by simp
  qed
qed


lemma mset_insert_at: "mset (insert_at i x ys) = add_mset x (mset ys)"
  unfolding insert_at_def
  by (metis append_take_drop_id mset.simps(2) union_mset_add_mset_right mset_append)

lemma mset_range_map: "mset (range_map seed xs) = mset xs"
  by (induction xs arbitrary: seed) (simp_all add: mset_insert_at)

lemma mset_foldl_insert_left:
  "mset (foldl (\<lambda>acc x. insert_left lt x acc) acc xs) = mset acc + mset xs"
  by (induction xs arbitrary: acc) (simp_all add: mset_insert_left)

lemma mset_sort_Slice: "mset (sort_Slice lt xs) = mset xs"
  by (simp add: sort_Slice_def mset_foldl_insert_left)

lemma sorted_foldl_insert_left:
  assumes swo: "strict_weak_order lt"
  shows "sorted_wrt (\<lambda>a b. \<not> lt a b) acc \<Longrightarrow>
   sorted_wrt (\<lambda>a b. \<not> lt a b) (foldl (\<lambda>acc x. insert_left lt x acc) acc xs)"
proof (induction xs arbitrary: acc)
  case Nil
  then show ?case by simp
next
  case (Cons x xs)
  have "sorted_wrt (\<lambda>a b. \<not> lt a b) (insert_left lt x acc)"
    using swo Cons.prems by (rule sorted_insert_left)
  then show ?case using Cons.IH by simp
qed

lemma sorted_sort_Slice:
  assumes swo: "strict_weak_order lt"
  shows "sorted_wrt (\<lambda>a b. \<not> lt b a) (sort_Slice lt xs)"
proof -
  have "sorted_wrt (\<lambda>a b. \<not> lt a b) (foldl (\<lambda>acc x. insert_left lt x acc) [] xs)"
    using swo by (rule sorted_foldl_insert_left) simp
  then show ?thesis
    by (simp add: sort_Slice_def sorted_wrt_rev)
qed

lemma Less_asym: "Less a b \<Longrightarrow> \<not> Less b a"
  by (auto simp: Less_def Compare_def split: if_splits)

lemma Less_negtrans: "\<not> Less a b \<Longrightarrow> \<not> Less b c \<Longrightarrow> \<not> Less a c"
  by (cases a; cases b; cases c) (auto simp: Less_def Compare_def split: if_splits)

lemma unat_eqD: "unat (v :: 'a::len word) = unat w \<Longrightarrow> v = w"
  by (rule unsigned_word_eqI)

lemma Less_total: "\<not> Less a b \<Longrightarrow> \<not> Less b a \<Longrightarrow> a = b"
proof (cases a; cases b)
  fix x y assume "a = Addr4 x" "b = Addr4 y" "\<not> Less a b" "\<not> Less b a"
  then show "a = b" by (simp add: Less_def Compare_def unat_eqD split: if_splits)
next
  fix x y z assume "a = Addr4 x" "b = Addr6 y z" "\<not> Less a b" "\<not> Less b a"
  then show "a = b" by (simp add: Less_def Compare_def split: if_splits)
next
  fix x y z assume "a = Addr6 y z" "b = Addr4 x" "\<not> Less a b" "\<not> Less b a"
  then show "a = b" by (simp add: Less_def Compare_def split: if_splits)
next
  fix x y z z' assume "a = Addr6 x z" "b = Addr6 y z'" "\<not> Less a b" "\<not> Less b a"
  then show "a = b" by (simp add: Less_def Compare_def unat_eqD split: if_splits)
qed

lemma strict_weak_order_Less: "strict_weak_order (\<lambda>a b. Less (Addr a) (Addr b))"
  unfolding strict_weak_order_def using Less_asym Less_negtrans by blast


subsection \<open>Node addresses\<close>

lemma Is4_iff: "Is4 ip \<longleftrightarrow> \<not> Is6 ip"
  by (cases ip) simp_all

lemma scanNodeAddresses_first:
  "scanNodeAddresses e cfg addrs = firstMatchingNodeAddress e cfg addrs"
proof (induction addrs)
  case Nil
  show ?case by (simp add: firstMatchingNodeAddress_def)
next
  case (Cons a rest)
  show ?case
  proof (cases "nodeAddressMatches e cfg a")
    case True
    then show ?thesis
      by (auto simp: firstMatchingNodeAddress_def nodeAddressMatches_def Is4_iff
               split: sum.splits)
  next
    case False
    then have "scanNodeAddresses e cfg (a # rest) = scanNodeAddresses e cfg rest"
      by (auto simp: nodeAddressMatches_def Is4_iff split: sum.splits)
    moreover from False
    have "firstMatchingNodeAddress e cfg (a # rest) = firstMatchingNodeAddress e cfg rest"
      by (simp add: firstMatchingNodeAddress_def)
    ultimately show ?thesis using Cons.IH by simp
  qed
qed

text \<open>
  C7. \<^verbatim>\<open>getNodeAddress\<close> fails with the error of the node read when the Node cannot
  be fetched; otherwise it returns the first address, in the Node's listed order, whose type
  equals the configured \<^verbatim>\<open>NodeAddressType\<close>, that parses (an entry that does not parse
  is passed over) and that is IPv6 exactly when \<^verbatim>\<open>UseIPv6Endpoints\<close> is set; when no
  entry matches it fails with \<open>noValidNodeAddressError\<close>.
\<close>

theorem getNodeAddress_first_match:
  "getNodeAddress e cfg nodeName =
     (case GetNode e nodeName of
        Inl err \<Rightarrow> Inl err
      | Inr node \<Rightarrow> firstMatchingNodeAddress e cfg (node_Addresses node))"
  by (simp add: getNodeAddress_def scanNodeAddresses_first split: sum.splits)

text \<open>
  The examples of the specification: the first matching internal IPv4 address is taken,
  after an external address, an unparseable entry and an IPv6 entry; a node with only an
  IPv6 internal address has no valid address.
\<close>

theorem getNodeAddress_first_match_witness:
  "getNodeAddress
     (ex_env (ex_svc [] []) []
        [(''n1'', ex_node [(''ExternalIP'', ''1.2.3.4''), (''InternalIP'', ''bogus''),
            (''InternalIP'', ''fd00::5''), (''InternalIP'', ''10.0.0.5''),
            (''InternalIP'', ''10.0.0.6'')])] None)
     (ex_cfg AddressSourceNode) ''n1'' = Inr (Addr4 0x0A000005) \<and>
   getNodeAddress
     (ex_env (ex_svc [] []) [] [(''n1'', ex_node [(''InternalIP'', ''fd00::5'')])] None)
     (ex_cfg AddressSourceNode) ''n1'' = Inl noValidNodeAddressError"
  unfolding getNodeAddress_first_match
  by (simp add: ex_env_def ex_cfg_def ex_parse_def ex_node_def firstMatchingNodeAddress_def
        nodeAddressMatches_def)

subsection \<open>The endpoint resolver\<close>

lemma distinct_keys_addAddresses:
  "addAddresses e p ready addrs m = Inr m' \<Longrightarrow> distinct (map fst m) \<Longrightarrow> distinct (map fst m')"
  by (induction addrs arbitrary: m) (auto split: sum.splits intro: distinct_update)

lemma distinct_keys_addEndpoints:
  "addEndpoints e cfg svcPort p eps m = Inr m' \<Longrightarrow> distinct (map fst m) \<Longrightarrow>
   distinct (map fst m')"
proof (induction eps arbitrary: m)
  case Nil
  then show ?case by simp
next
  case (Cons ep rest)
  show ?case
  proof (cases "AddressSource cfg = AddressSourceNode")
    case True
    with Cons show ?thesis
      by (auto split: option.splits if_splits sum.splits intro: distinct_update)
  next
    case False
    with Cons.prems obtain m1 where
      m1: "addAddresses e p (readiness ep) (ep_Addresses ep) m = Inr m1"
      and rest: "addEndpoints e cfg svcPort p rest m1 = Inr m'"
      by (auto split: sum.splits)
    from m1 Cons.prems(2) have "distinct (map fst m1)"
      by (rule distinct_keys_addAddresses)
    with rest show ?thesis by (rule Cons.IH)
  qed
qed

lemma distinct_keys_addSlices:
  "addSlices e cfg svcPort items m = Inr m' \<Longrightarrow> distinct (map fst m) \<Longrightarrow>
   distinct (map fst m')"
proof (induction items arbitrary: m)
  case Nil
  then show ?case by simp
next
  case (Cons es rest)
  then show ?case
    by (auto split: if_splits option.splits sum.splits dest: distinct_keys_addEndpoints)
qed

lemma distinct_keys_collectIPs:
  "collectIPs e cfg svc port = Inr m \<Longrightarrow> distinct (map fst m)"
  by (auto simp: collectIPs_def split: option.splits sum.splits
           dest: distinct_keys_addSlices)

lemma mset_readyKeys:
  "mset (map fst (filter snd (range_map seed m))) = mset (map fst (filter snd m))"
proof -
  have "mset (filter snd (range_map seed m)) = mset (filter snd m)"
    by (simp add: mset_range_map)
  then show ?thesis by (metis mset_map)
qed

lemma distinct_ready: "distinct (map fst m) \<Longrightarrow> distinct (map fst (filter snd m))"
  by (rule distinct_map_filter)

lemma set_ready:
  "distinct (map fst m) \<Longrightarrow> set (map fst (filter snd m)) = {k. map_of m k = Some True}"
  by (auto simp: image_iff)

lemma emitEndpoints_AddrPorts:
  "map se_AddrPort (emitEndpoints seed proto m) =
     sort_Slice (\<lambda>a b. Less (Addr a) (Addr b)) (map fst (filter snd (range_map seed m)))"
  by (simp add: emitEndpoints_def comp_def)

lemma mset_emitEndpoints:
  "mset (map se_AddrPort (emitEndpoints seed proto m)) = mset (map fst (filter snd m))"
  by (simp only: emitEndpoints_AddrPorts mset_sort_Slice mset_readyKeys)

lemma emitEndpoints_sorted:
  "sorted_wrt (\<lambda>a b. \<not> Less (Addr (se_AddrPort b)) (Addr (se_AddrPort a)))
     (emitEndpoints seed proto m)"
proof -
  have "sorted_wrt (\<lambda>a b. \<not> Less (Addr b) (Addr a))
          (map se_AddrPort (emitEndpoints seed proto m))"
    unfolding emitEndpoints_AddrPorts
    using strict_weak_order_Less by (rule sorted_sort_Slice)
  then show ?thesis by (simp add: sorted_wrt_map)
qed

lemma emitEndpoints_distinct:
  assumes "distinct (map fst m)"
  shows "distinct (map se_AddrPort (emitEndpoints seed proto m))"
proof -
  from assms have "distinct (map fst (filter snd m))" by (rule distinct_ready)
  then show ?thesis
    using mset_emitEndpoints [of seed proto m] by (metis mset_eq_imp_distinct_iff)
qed

lemma emitEndpoints_set:
  assumes "distinct (map fst m)"
  shows "set (map se_AddrPort (emitEndpoints seed proto m)) = {k. map_of m k = Some True}"
proof -
  have "set (map se_AddrPort (emitEndpoints seed proto m)) = set (map fst (filter snd m))"
    using mset_emitEndpoints [of seed proto m] by (rule mset_eq_setD)
  with assms show ?thesis by (simp only: set_ready)
qed

lemma emitEndpoints_Protocol:
  "ep \<in> set (emitEndpoints seed proto m) \<Longrightarrow> se_Protocol ep = proto"
  by (auto simp: emitEndpoints_def)

text \<open>
  C4. Whenever the resolver gets as far as the filled map \<open>m\<close> of readiness per
  (address, port), it returns a list and no error; the list holds each (address, port) pair
  at most once, holds exactly the pairs whose final readiness in \<open>m\<close> is true (so none
  whose readiness resolved to false), and is in ascending order of address. When no pair is
  ready the result is the empty list, not an error. This holds for every input and every
  enumeration order of the map.
\<close>

theorem buildEndpoints_deduplicated_ready_sorted:
  assumes "collectIPs e cfg svc port = Inr m"
  shows "\<exists>eps. buildEndpoints e cfg seed svc port = Inr eps \<and>
           distinct (map se_AddrPort eps) \<and>
           set (map se_AddrPort eps) = {k. map_of m k = Some True} \<and>
           sorted_wrt (\<lambda>a b. \<not> Less (Addr (se_AddrPort b)) (Addr (se_AddrPort a))) eps \<and>
           ((\<forall>k. map_of m k \<noteq> Some True) \<longrightarrow> eps = [])"
proof -
  from assms have d: "distinct (map fst m)" by (rule distinct_keys_collectIPs)
  let ?eps = "emitEndpoints seed (sp_Protocol port) m"
  have 1: "buildEndpoints e cfg seed svc port = Inr ?eps"
    using assms by (simp add: buildEndpoints_def)
  have 2: "distinct (map se_AddrPort ?eps)" using d by (rule emitEndpoints_distinct)
  have 3: "set (map se_AddrPort ?eps) = {k. map_of m k = Some True}"
    using d by (rule emitEndpoints_set)
  have 4: "sorted_wrt (\<lambda>a b. \<not> Less (Addr (se_AddrPort b)) (Addr (se_AddrPort a))) ?eps"
    by (rule emitEndpoints_sorted)
  have 5: "(\<forall>k. map_of m k \<noteq> Some True) \<longrightarrow> ?eps = []"
    using 3 by auto
  from 1 2 3 4 5 show ?thesis by blast
qed

lemmas ex_defs =
  ex_env_def ex_cfg_def ex_svc_def ex_port_def ex_slice_def ex_endpoint_def ex_node_def
  ex_parse_def ex_duration_def ex_prefix_def

lemmas resolver_defs =
  collectIPs_def sliceSelected_def endpointPortNumber_def readiness_def uint16_def
  getNodeAddress_def

lemma ex_dup_collect:
  "collectIPs (ex_env (ex_svc [] []) ex_dup_items [] None) (ex_cfg AddressSourcePod)
     (ex_svc [] []) (ServicePort 80 TCP) =
   Inr [(AddrPortFrom (Addr4 0x0A000006) 8080, True),
        (AddrPortFrom (Addr4 0x0A000005) 8080, True),
        (AddrPortFrom (Addr4 0x01020304) 8080, False)]"
  by (simp add: ex_dup_items_def ex_defs resolver_defs)

lemma ex_unready_collect:
  "collectIPs (ex_env (ex_svc [] []) ex_unready_items [] None) (ex_cfg AddressSourcePod)
     (ex_svc [] []) (ServicePort 80 TCP) =
   Inr [(AddrPortFrom (Addr4 0x0A000005) 8080, False)]"
  by (simp add: ex_unready_items_def ex_defs resolver_defs)

lemma ex_dup_build:
  "buildEndpoints (ex_env (ex_svc [] []) ex_dup_items [] None) (ex_cfg AddressSourcePod) 4
     (ex_svc [] []) (ServicePort 80 TCP) =
   Inr [ServiceEndpoint (AddrPortFrom (Addr4 0x0A000005) 8080) TCP,
        ServiceEndpoint (AddrPortFrom (Addr4 0x0A000006) 8080) TCP]"
  by (simp add: buildEndpoints_def ex_dup_collect emitEndpoints_def insert_at_def
        sort_Slice_def Less_def Compare_def)

lemma nodeOrigin_mono:
  "nodeOrigin e cfg svcPort eps k \<Longrightarrow> set eps \<subseteq> set eps' \<Longrightarrow> nodeOrigin e cfg svcPort eps' k"
  unfolding nodeOrigin_def by blast

lemma node_addEndpoints_total:
  "AddressSource cfg = AddressSourceNode \<Longrightarrow> \<exists>m'. addEndpoints e cfg svcPort p eps m = Inr m'"
  by (induction eps arbitrary: m) (auto split: option.splits sum.splits)

lemma node_addSlices_total:
  assumes "AddressSource cfg = AddressSourceNode"
  shows "\<exists>m'. addSlices e cfg svcPort items m = Inr m'"
proof (induction items arbitrary: m)
  case Nil
  show ?case by simp
next
  case (Cons es rest)
  show ?case
  proof (cases "sliceSelected cfg es")
    case False
    then show ?thesis using Cons.IH by simp
  next
    case True
    show ?thesis
    proof (cases "findEndpointPort (es_Ports es) svcPort")
      case None
      with True show ?thesis using Cons.IH by simp
    next
      case (Some epPort)
      show ?thesis
      proof (cases "endpointPortNumber svcPort epPort")
        case None
        with True Some show ?thesis using Cons.IH by simp
      next
        case (Some p)
        from assms obtain m1 where "addEndpoints e cfg svcPort p (es_Endpoints es) m = Inr m1"
          using node_addEndpoints_total by blast
        with True \<open>findEndpointPort (es_Ports es) svcPort = Some epPort\<close> Some
        show ?thesis using Cons.IH [of m1] by simp
      qed
    qed
  qed
qed

lemma node_addEndpoints_keys:
  assumes node: "AddressSource cfg = AddressSourceNode"
  shows "addEndpoints e cfg svcPort p eps m = Inr m' \<Longrightarrow> k \<in> fst ` set m' \<Longrightarrow>
         k \<in> fst ` set m \<or> nodeOrigin e cfg svcPort eps k"
proof (induction eps arbitrary: m)
  case Nil
  then show ?case by simp
next
  case (Cons ep rest)
  let ?skip = "addEndpoints e cfg svcPort p rest m = Inr m'"
  have mono: "nodeOrigin e cfg svcPort rest k \<Longrightarrow> nodeOrigin e cfg svcPort (ep # rest) k"
    by (rule nodeOrigin_mono) auto
  show ?case
  proof (cases "\<exists>n ip. ep_NodeName ep = Some n \<and> csp_NodePort svcPort \<noteq> 0 \<and>
                  getNodeAddress e cfg n = Inr ip")
    case False
    with node Cons.prems(1) have ?skip
      by (auto split: option.splits sum.splits if_splits)
    from Cons.IH [OF this Cons.prems(2)] mono show ?thesis by blast
  next
    case True
    then obtain n ip where n: "ep_NodeName ep = Some n" and np: "csp_NodePort svcPort \<noteq> 0"
      and ip: "getNodeAddress e cfg n = Inr ip" by blast
    let ?k = "AddrPortFrom ip (uint16 (csp_NodePort svcPort))"
    from node n np ip Cons.prems(1)
    have "addEndpoints e cfg svcPort p rest (AList.update ?k (readiness ep) m) = Inr m'"
      by simp
    from Cons.IH [OF this Cons.prems(2)]
    have "k \<in> fst ` set (AList.update ?k (readiness ep) m) \<or> nodeOrigin e cfg svcPort rest k" .
    then consider "k = ?k" | "k \<in> fst ` set m" | "nodeOrigin e cfg svcPort rest k"
      by (auto simp: dom_update)
    then show ?thesis
    proof cases
      case 1
      with n np ip have "nodeOrigin e cfg svcPort (ep # rest) k"
        by (auto simp: nodeOrigin_def)
      then show ?thesis ..
    next
      case 2
      then show ?thesis ..
    next
      case 3
      then show ?thesis using mono by blast
    qed
  qed
qed

lemma node_addSlices_keys:
  assumes node: "AddressSource cfg = AddressSourceNode"
  shows "addSlices e cfg svcPort items m = Inr m' \<Longrightarrow> k \<in> fst ` set m' \<Longrightarrow>
         k \<in> fst ` set m \<or>
         (\<exists>es\<in>set items. sliceSelected cfg es \<and> nodeOrigin e cfg svcPort (es_Endpoints es) k)"
proof (induction items arbitrary: m)
  case Nil
  then show ?case by simp
next
  case (Cons es rest)
  let ?Q = "\<lambda>items. \<exists>es\<in>set items. sliceSelected cfg es \<and>
               nodeOrigin e cfg svcPort (es_Endpoints es) k"
  have skip: "addSlices e cfg svcPort rest m = Inr m' \<Longrightarrow> k \<in> fst ` set m \<or> ?Q (es # rest)"
    using Cons.IH [of m] Cons.prems(2) by auto
  show ?case
  proof (cases "sliceSelected cfg es")
    case False
    with Cons.prems(1) skip show ?thesis by simp
  next
    case sel: True
    show ?thesis
    proof (cases "findEndpointPort (es_Ports es) svcPort")
      case None
      with sel Cons.prems(1) skip show ?thesis by simp
    next
      case fp: (Some epPort)
      show ?thesis
      proof (cases "endpointPortNumber svcPort epPort")
        case None
        with sel fp Cons.prems(1) skip show ?thesis by simp
      next
        case (Some p)
        with sel fp Cons.prems(1) obtain m1 where
          m1: "addEndpoints e cfg svcPort p (es_Endpoints es) m = Inr m1"
          and rest: "addSlices e cfg svcPort rest m1 = Inr m'"
          by (auto split: sum.splits)
        from Cons.IH [OF rest Cons.prems(2)]
        have "k \<in> fst ` set m1 \<or> ?Q rest" .
        then show ?thesis
        proof
          assume "k \<in> fst ` set m1"
          with node_addEndpoints_keys [OF node m1]
          have "k \<in> fst ` set m \<or> nodeOrigin e cfg svcPort (es_Endpoints es) k" by blast
          with sel show ?thesis by auto
        next
          assume "?Q rest"
          then show ?thesis by auto
        qed
      qed
    qed
  qed
qed

text \<open>
  Two slices with duplicates: the pair that was seen not ready and then ready is kept, the
  not-ready one is dropped, the result is sorted. A slice with nothing ready gives \<open>[]\<close>.
\<close>

theorem buildEndpoints_deduplicated_ready_sorted_witness:
  "collectIPs (ex_env (ex_svc [] []) ex_dup_items [] None) (ex_cfg AddressSourcePod)
     (ex_svc [] []) (ServicePort 80 TCP) =
   Inr [(AddrPortFrom (Addr4 0x0A000006) 8080, True),
        (AddrPortFrom (Addr4 0x0A000005) 8080, True),
        (AddrPortFrom (Addr4 0x01020304) 8080, False)] \<and>
   buildEndpoints (ex_env (ex_svc [] []) ex_dup_items [] None) (ex_cfg AddressSourcePod) 4
     (ex_svc [] []) (ServicePort 80 TCP) =
   Inr [ServiceEndpoint (AddrPortFrom (Addr4 0x0A000005) 8080) TCP,
        ServiceEndpoint (AddrPortFrom (Addr4 0x0A000006) 8080) TCP] \<and>
   collectIPs (ex_env (ex_svc [] []) ex_unready_items [] None) (ex_cfg AddressSourcePod)
     (ex_svc [] []) (ServicePort 80 TCP) =
   Inr [(AddrPortFrom (Addr4 0x0A000005) 8080, False)] \<and>
   buildEndpoints (ex_env (ex_svc [] []) ex_unready_items [] None) (ex_cfg AddressSourcePod) 4
     (ex_svc [] []) (ServicePort 80 TCP) = Inr []"
proof -
  from buildEndpoints_deduplicated_ready_sorted [OF ex_unready_collect, of 4]
  obtain eps where
    "buildEndpoints (ex_env (ex_svc [] []) ex_unready_items [] None) (ex_cfg AddressSourcePod) 4
       (ex_svc [] []) (ServicePort 80 TCP) = Inr eps"
    and "(\<forall>k. map_of [(AddrPortFrom (Addr4 0x0A000005) 8080, False)] k \<noteq> Some True) \<longrightarrow> eps = []"
    by blast
  then have "buildEndpoints (ex_env (ex_svc [] []) ex_unready_items [] None)
      (ex_cfg AddressSourcePod) 4 (ex_svc [] []) (ServicePort 80 TCP) = Inr []"
    by simp
  with ex_dup_collect ex_dup_build ex_unready_collect show ?thesis by simp
qed

subsection \<open>Node mode\<close>

lemma collectIPs_node_keys:
  assumes node: "AddressSource cfg = AddressSourceNode"
    and sp: "findServicePort (svc_Ports svc) port = Some svcPort"
    and items: "ListEndpointSlices e (svc_Namespace svc) (svc_Name svc) = Inr items"
    and m: "collectIPs e cfg svc port = Inr m"
    and k: "k \<in> fst ` set m"
  shows "\<exists>es\<in>set items. sliceSelected cfg es \<and> nodeOrigin e cfg svcPort (es_Endpoints es) k"
proof -
  from sp items m have "addSlices e cfg svcPort items [] = Inr m"
    by (simp add: collectIPs_def)
  from node_addSlices_keys [OF node this k] show ?thesis by simp
qed

lemma buildEndpoints_keys:
  assumes "buildEndpoints e cfg seed svc port = Inr eps" and "ep \<in> set eps"
  shows "\<exists>m. collectIPs e cfg svc port = Inr m \<and> se_AddrPort ep \<in> fst ` set m"
proof -
  from assms(1) obtain m where m: "collectIPs e cfg svc port = Inr m"
    and eps: "eps = emitEndpoints seed (sp_Protocol port) m"
    by (auto simp: buildEndpoints_def split: sum.splits)
  from m have "distinct (map fst m)" by (rule distinct_keys_collectIPs)
  then have "set (map se_AddrPort eps) = {k. map_of m k = Some True}"
    unfolding eps by (rule emitEndpoints_set)
  with assms(2) have "map_of m (se_AddrPort ep) = Some True" by auto
  then have "se_AddrPort ep \<in> fst ` set m"
    by (metis domI dom_map_of_conv_image_fst)
  with m show ?thesis by blast
qed

text \<open>
  C6. In Node mode every endpoint the resolver produces has as its port the Service port's
  node port (converted to \<^verbatim>\<open>uint16\<close>), whatever port the slice gives; that node port is
  not zero; and its address is the address \<^verbatim>\<open>getNodeAddress\<close> resolves for the node that
  some endpoint of a selected slice names.
\<close>

theorem node_mode_endpoint_is_node_address_and_node_port:
  assumes "AddressSource cfg = AddressSourceNode"
    and "findServicePort (svc_Ports svc) port = Some svcPort"
    and "ListEndpointSlices e (svc_Namespace svc) (svc_Name svc) = Inr items"
    and "buildEndpoints e cfg seed svc port = Inr eps"
    and "ep \<in> set eps"
  shows "csp_NodePort svcPort \<noteq> 0 \<and>
         Port (se_AddrPort ep) = uint16 (csp_NodePort svcPort) \<and>
         (\<exists>es\<in>set items. sliceSelected cfg es \<and>
            (\<exists>x\<in>set (es_Endpoints es). \<exists>n.
               ep_NodeName x = Some n \<and>
               getNodeAddress e cfg n = Inr (Addr (se_AddrPort ep))))"
proof -
  from assms(4,5) obtain m where m: "collectIPs e cfg svc port = Inr m"
    and k: "se_AddrPort ep \<in> fst ` set m"
    using buildEndpoints_keys by blast
  from collectIPs_node_keys [OF assms(1,2,3) m k]
  show ?thesis unfolding nodeOrigin_def by blast
qed

lemma ex_node_build:
  "buildEndpoints (ex_env (ex_svc [] []) ex_node_items ex_nodes None) (ex_cfg AddressSourceNode)
     seed (ex_svc [] []) (ServicePort 80 TCP) =
   Inr [ServiceEndpoint (AddrPortFrom (Addr4 0x0A000005) 30080) TCP]"
  by (simp add: buildEndpoints_def emitEndpoints_def insert_at_def sort_Slice_def
        ex_node_items_def ex_nodes_def ex_defs resolver_defs)

lemma ex_findServicePort:
  "findServicePort (svc_Ports (ex_svc anns ranges)) (ServicePort 80 TCP) = Some ex_port"
  by (simp add: ex_svc_def ex_port_def)

lemma ex_List:
  "ListEndpointSlices (ex_env (ex_svc anns ranges) items nodes st)
     (svc_Namespace (ex_svc anns ranges)) (svc_Name (ex_svc anns ranges)) = Inr items"
  by (simp add: ex_env_def)

text \<open>
  The end-to-end example of the specification: the slice says port 8080, the endpoint is on
  node \<^verbatim>\<open>n1\<close> with internal address 10.0.0.5, the Service's node port is 30080.
\<close>

theorem node_mode_endpoint_is_node_address_and_node_port_witness:
  "buildEndpoints (ex_env (ex_svc [] []) ex_node_items ex_nodes None) (ex_cfg AddressSourceNode)
     0 (ex_svc [] []) (ServicePort 80 TCP) =
   Inr [ServiceEndpoint (AddrPortFrom (Addr4 0x0A000005) 30080) TCP] \<and>
   csp_NodePort ex_port \<noteq> 0 \<and>
   Port (AddrPortFrom (Addr4 0x0A000005) 30080) = uint16 (csp_NodePort ex_port) \<and>
   getNodeAddress (ex_env (ex_svc [] []) ex_node_items ex_nodes None) (ex_cfg AddressSourceNode)
     ''n1'' = Inr (Addr4 0x0A000005)"
proof -
  have src: "AddressSource (ex_cfg AddressSourceNode) = AddressSourceNode"
    by (simp add: ex_cfg_def)
  have mem: "ServiceEndpoint (AddrPortFrom (Addr4 0x0A000005) 30080) TCP
      \<in> set [ServiceEndpoint (AddrPortFrom (Addr4 0x0A000005) 30080) TCP]"
    by simp
  from node_mode_endpoint_is_node_address_and_node_port
    [OF src ex_findServicePort ex_List ex_node_build mem]
  have "csp_NodePort ex_port \<noteq> 0 \<and>
    Port (AddrPortFrom (Addr4 0x0A000005) 30080) = uint16 (csp_NodePort ex_port)"
    by simp
  moreover have "getNodeAddress (ex_env (ex_svc [] []) ex_node_items ex_nodes None)
     (ex_cfg AddressSourceNode) ''n1'' = Inr (Addr4 0x0A000005)"
    by (simp add: ex_nodes_def ex_defs resolver_defs)
  ultimately show ?thesis using ex_node_build by simp
qed

subsection \<open>Failure policy\<close>

lemma addAddresses_error:
  "addAddresses e p ready addrs m = Inl err \<Longrightarrow> \<exists>a\<in>set addrs. ParseAddr e a = Inl err"
  by (induction addrs arbitrary: m) (auto split: sum.splits)

lemma addAddresses_all_parse:
  "addAddresses e p ready addrs m = Inr m' \<Longrightarrow> a \<in> set addrs \<Longrightarrow> \<exists>ip. ParseAddr e a = Inr ip"
  by (induction addrs arbitrary: m) (auto split: sum.splits)

lemma pod_addEndpoints_error:
  "AddressSource cfg = AddressSourcePod \<Longrightarrow> addEndpoints e cfg svcPort p eps m = Inl err \<Longrightarrow>
   \<exists>x\<in>set eps. \<exists>a\<in>set (ep_Addresses x). ParseAddr e a = Inl err"
proof (induction eps arbitrary: m)
  case Nil
  then show ?case by simp
next
  case (Cons ep rest)
  show ?case
  proof (cases "addAddresses e p (readiness ep) (ep_Addresses ep) m")
    case (Inl err')
    with Cons.prems have "err' = err" by simp
    with Inl have "\<exists>a\<in>set (ep_Addresses ep). ParseAddr e a = Inl err"
      using addAddresses_error by blast
    then show ?thesis by simp
  next
    case (Inr m1)
    with Cons.prems have "addEndpoints e cfg svcPort p rest m1 = Inl err" by simp
    from Cons.IH [OF Cons.prems(1) this] show ?thesis by simp
  qed
qed

lemma pod_addEndpoints_all_parse:
  "AddressSource cfg = AddressSourcePod \<Longrightarrow> addEndpoints e cfg svcPort p eps m = Inr m' \<Longrightarrow>
   x \<in> set eps \<Longrightarrow> a \<in> set (ep_Addresses x) \<Longrightarrow> \<exists>ip. ParseAddr e a = Inr ip"
proof (induction eps arbitrary: m)
  case Nil
  then show ?case by simp
next
  case (Cons ep rest)
  from Cons.prems(1,2) obtain m1 where
    m1: "addAddresses e p (readiness ep) (ep_Addresses ep) m = Inr m1"
    and rest: "addEndpoints e cfg svcPort p rest m1 = Inr m'"
    by (auto split: sum.splits)
  show ?case
  proof (cases "x = ep")
    case True
    with m1 Cons.prems(4) show ?thesis using addAddresses_all_parse by blast
  next
    case False
    with Cons.prems(3) have "x \<in> set rest" by simp
    from Cons.IH [OF Cons.prems(1) rest this Cons.prems(4)] show ?thesis .
  qed
qed

lemma pod_addSlices_error:
  "AddressSource cfg = AddressSourcePod \<Longrightarrow> addSlices e cfg svcPort items m = Inl err \<Longrightarrow>
   \<exists>a. ParseAddr e a = Inl err"
proof (induction items arbitrary: m)
  case Nil
  then show ?case by simp
next
  case (Cons es rest)
  then show ?case
    by (auto split: if_splits option.splits sum.splits dest: pod_addEndpoints_error)
qed

lemma pod_addSlices_all_parse:
  assumes pod: "AddressSource cfg = AddressSourcePod"
    and sel: "sliceSelected cfg es"
    and fp: "findEndpointPort (es_Ports es) svcPort = Some epPort"
    and pn: "endpointPortNumber svcPort epPort = Some p"
    and x: "x \<in> set (es_Endpoints es)" and a: "a \<in> set (ep_Addresses x)"
  shows "addSlices e cfg svcPort items m = Inr m' \<Longrightarrow> es \<in> set items \<Longrightarrow>
         \<exists>ip. ParseAddr e a = Inr ip"
proof (induction items arbitrary: m)
  case Nil
  then show ?case by simp
next
  case (Cons es' rest)
  show ?case
  proof (cases "es = es'")
    case True
    with Cons.prems(1) sel fp pn obtain m1 where
      "addEndpoints e cfg svcPort p (es_Endpoints es) m = Inr m1"
      by (auto split: sum.splits)
    from pod_addEndpoints_all_parse [OF pod this x a] show ?thesis .
  next
    case False
    with Cons.prems(2) have mem: "es \<in> set rest" by simp
    from Cons.prems(1) obtain m1 where "addSlices e cfg svcPort rest m1 = Inr m'"
      by (auto split: if_splits option.splits sum.splits)
    from Cons.IH [OF this mem] show ?thesis .
  qed
qed

lemma node_addEndpoints_drop:
  assumes node: "AddressSource cfg = AddressSourceNode"
  shows "addEndpoints e cfg svcPort p (filter (\<lambda>ep. \<not> unresolvable e cfg ep) eps) m =
         addEndpoints e cfg svcPort p eps m"
proof (induction eps arbitrary: m)
  case Nil
  show ?case by simp
next
  case (Cons ep rest)
  show ?case
  proof (cases "unresolvable e cfg ep")
    case True
    then have "addEndpoints e cfg svcPort p (ep # rest) m = addEndpoints e cfg svcPort p rest m"
      using node by (auto simp: unresolvable_def split: option.splits sum.splits)
    with True Cons.IH show ?thesis by simp
  next
    case False
    then have "filter (\<lambda>ep. \<not> unresolvable e cfg ep) (ep # rest) =
        ep # filter (\<lambda>ep. \<not> unresolvable e cfg ep) rest"
      by simp
    then show ?thesis
      using node by (simp add: Cons.IH split: option.splits sum.splits)
  qed
qed

lemma node_addSlices_drop:
  assumes node: "AddressSource cfg = AddressSourceNode"
  shows "addSlices e cfg svcPort (map (dropUnresolvable e cfg) items) m =
         addSlices e cfg svcPort items m"
proof (induction items arbitrary: m)
  case Nil
  show ?case by simp
next
  case (Cons es rest)
  have sel: "sliceSelected cfg (dropUnresolvable e cfg es) = sliceSelected cfg es"
    by (simp add: sliceSelected_def dropUnresolvable_def)
  have ports: "es_Ports (dropUnresolvable e cfg es) = es_Ports es"
    by (simp add: dropUnresolvable_def)
  have eps: "es_Endpoints (dropUnresolvable e cfg es) =
      filter (\<lambda>ep. \<not> unresolvable e cfg ep) (es_Endpoints es)"
    by (simp add: dropUnresolvable_def)
  show ?case
    by (simp add: sel ports eps node_addEndpoints_drop [OF node] Cons.IH
          split: option.splits sum.splits)
qed

text \<open>
  C5. Let the Service port be found and the slices be listed. In Pod mode, when an
  endpoint of a slice the resolver processes (selected by address family, with a matching
  port entry that has a number) carries an address string that does not parse, the whole
  resolution returns an error, the parse error of a malformed address, and no list. In Node
  mode the resolution always succeeds, and its result is the one obtained from the slices
  without the endpoints whose node address cannot be resolved: such an endpoint is dropped
  and nothing else changes.
\<close>

theorem resolver_failure_policy:
  assumes "findServicePort (svc_Ports svc) port = Some svcPort"
    and "ListEndpointSlices e (svc_Namespace svc) (svc_Name svc) = Inr items"
  shows "(AddressSource cfg = AddressSourcePod \<and> es \<in> set items \<and> sliceSelected cfg es \<and>
          findEndpointPort (es_Ports es) svcPort = Some epPort \<and>
          endpointPortNumber svcPort epPort = Some p \<and>
          x \<in> set (es_Endpoints es) \<and> a \<in> set (ep_Addresses x) \<and> ParseAddr e a = Inl err
          \<longrightarrow> (\<exists>a' err'. ParseAddr e a' = Inl err' \<and>
                 buildEndpoints e cfg seed svc port = Inl err')) \<and>
         (AddressSource cfg = AddressSourceNode
          \<longrightarrow> (\<exists>m. addSlices e cfg svcPort (map (dropUnresolvable e cfg) items) [] = Inr m \<and>
                 buildEndpoints e cfg seed svc port =
                   Inr (emitEndpoints seed (sp_Protocol port) m)))"
proof (intro conjI impI)
  assume h: "AddressSource cfg = AddressSourcePod \<and> es \<in> set items \<and> sliceSelected cfg es \<and>
          findEndpointPort (es_Ports es) svcPort = Some epPort \<and>
          endpointPortNumber svcPort epPort = Some p \<and>
          x \<in> set (es_Endpoints es) \<and> a \<in> set (ep_Addresses x) \<and> ParseAddr e a = Inl err"
  then have pod: "AddressSource cfg = AddressSourcePod" by simp
  have c: "collectIPs e cfg svc port = addSlices e cfg svcPort items []"
    using assms by (simp add: collectIPs_def)
  show "\<exists>a' err'. ParseAddr e a' = Inl err' \<and> buildEndpoints e cfg seed svc port = Inl err'"
  proof (cases "addSlices e cfg svcPort items []")
    case (Inl err')
    from pod_addSlices_error [OF pod Inl] obtain a' where "ParseAddr e a' = Inl err'" ..
    moreover from Inl c have "buildEndpoints e cfg seed svc port = Inl err'"
      by (simp add: buildEndpoints_def)
    ultimately show ?thesis by blast
  next
    case (Inr m)
    from h have "\<exists>ip. ParseAddr e a = Inr ip"
      using pod_addSlices_all_parse [OF pod _ _ _ _ _ Inr, of es epPort p x a] by blast
    with h show ?thesis by simp
  qed
next
  assume node: "AddressSource cfg = AddressSourceNode"
  from node_addSlices_total [OF node] obtain m where
    m: "addSlices e cfg svcPort items [] = Inr m" by blast
  then have "addSlices e cfg svcPort (map (dropUnresolvable e cfg) items) [] = Inr m"
    by (simp add: node_addSlices_drop [OF node])
  moreover from m assms have "buildEndpoints e cfg seed svc port =
      Inr (emitEndpoints seed (sp_Protocol port) m)"
    by (simp add: buildEndpoints_def collectIPs_def)
  ultimately show "\<exists>m. addSlices e cfg svcPort (map (dropUnresolvable e cfg) items) [] = Inr m \<and>
      buildEndpoints e cfg seed svc port = Inr (emitEndpoints seed (sp_Protocol port) m)"
    by blast
qed

lemma ex_bogus_build:
  "buildEndpoints (ex_env (ex_svc [] []) ex_bogus_items [] None) (ex_cfg AddressSourcePod)
     seed (ex_svc [] []) (ServicePort 80 TCP) = Inl (ParseAddrError ''bogus'')"
  by (simp add: buildEndpoints_def ex_bogus_items_def ex_defs resolver_defs)

text \<open>
  Pod mode: the second of three endpoints has the address \<^verbatim>\<open>bogus\<close>, and the resolution
  returns its parse error although the first address is fine. Node mode: of three endpoints
  one is on a node that resolves, one on a node that cannot be read, one names no node; the
  resolution succeeds with the first.
\<close>

theorem resolver_failure_policy_witness:
  "ParseAddr (ex_env (ex_svc [] []) ex_bogus_items [] None) ''bogus'' =
     Inl (ParseAddrError ''bogus'') \<and>
   (\<exists>a' err'. ParseAddr (ex_env (ex_svc [] []) ex_bogus_items [] None) a' = Inl err' \<and>
      buildEndpoints (ex_env (ex_svc [] []) ex_bogus_items [] None) (ex_cfg AddressSourcePod)
        0 (ex_svc [] []) (ServicePort 80 TCP) = Inl err') \<and>
   buildEndpoints (ex_env (ex_svc [] []) ex_bogus_items [] None) (ex_cfg AddressSourcePod)
     0 (ex_svc [] []) (ServicePort 80 TCP) = Inl (ParseAddrError ''bogus'') \<and>
   getNodeAddress (ex_env (ex_svc [] []) ex_node_items ex_nodes None)
     (ex_cfg AddressSourceNode) ''n2'' = Inl NotFound \<and>
   (\<exists>m. addSlices (ex_env (ex_svc [] []) ex_node_items ex_nodes None)
          (ex_cfg AddressSourceNode) ex_port
          (map (dropUnresolvable (ex_env (ex_svc [] []) ex_node_items ex_nodes None)
             (ex_cfg AddressSourceNode)) ex_node_items) [] = Inr m \<and>
        buildEndpoints (ex_env (ex_svc [] []) ex_node_items ex_nodes None)
          (ex_cfg AddressSourceNode) 0 (ex_svc [] []) (ServicePort 80 TCP) =
        Inr (emitEndpoints 0 TCP m)) \<and>
   buildEndpoints (ex_env (ex_svc [] []) ex_node_items ex_nodes None) (ex_cfg AddressSourceNode)
     0 (ex_svc [] []) (ServicePort 80 TCP) =
   Inr [ServiceEndpoint (AddrPortFrom (Addr4 0x0A000005) 30080) TCP]"
proof -
  let ?e = "ex_env (ex_svc [] []) ex_bogus_items [] None"
  let ?es = "ex_slice 8080
        [ex_endpoint ''10.0.0.5'' None None, ex_endpoint ''bogus'' None None,
         ex_endpoint ''10.0.0.6'' None None]"
  have bogus: "ParseAddr ?e ''bogus'' = Inl (ParseAddrError ''bogus'')"
    by (simp add: ex_env_def ex_parse_def)
  have pod: "AddressSource (ex_cfg AddressSourcePod) = AddressSourcePod \<and>
      ?es \<in> set ex_bogus_items \<and>
      sliceSelected (ex_cfg AddressSourcePod) ?es \<and>
      findEndpointPort (es_Ports ?es) ex_port = Some \<lparr>epp_Name = None, epp_Port = Some 8080\<rparr> \<and>
      endpointPortNumber ex_port \<lparr>epp_Name = None, epp_Port = Some 8080\<rparr> = Some 8080 \<and>
      ex_endpoint ''bogus'' None None \<in> set (es_Endpoints ?es) \<and>
      ''bogus'' \<in> set (ep_Addresses (ex_endpoint ''bogus'' None None)) \<and>
      ParseAddr ?e ''bogus'' = Inl (ParseAddrError ''bogus'')"
    by (simp add: ex_bogus_items_def ex_defs resolver_defs)
  have node: "AddressSource (ex_cfg AddressSourceNode) = AddressSourceNode"
    by (simp add: ex_cfg_def)
  have n2: "getNodeAddress (ex_env (ex_svc [] []) ex_node_items ex_nodes None)
     (ex_cfg AddressSourceNode) ''n2'' = Inl NotFound"
    by (simp add: ex_nodes_def ex_defs resolver_defs)
  from resolver_failure_policy [OF ex_findServicePort ex_List, THEN conjunct1, rule_format, OF pod]
  have 1: "\<exists>a' err'. ParseAddr ?e a' = Inl err' \<and>
      buildEndpoints ?e (ex_cfg AddressSourcePod) 0 (ex_svc [] []) (ServicePort 80 TCP) = Inl err'" .
  from resolver_failure_policy [OF ex_findServicePort ex_List, THEN conjunct2, rule_format, OF node]
  have 2: "\<exists>m. addSlices (ex_env (ex_svc [] []) ex_node_items ex_nodes None)
          (ex_cfg AddressSourceNode) ex_port
          (map (dropUnresolvable (ex_env (ex_svc [] []) ex_node_items ex_nodes None)
             (ex_cfg AddressSourceNode)) ex_node_items) [] = Inr m \<and>
        buildEndpoints (ex_env (ex_svc [] []) ex_node_items ex_nodes None)
          (ex_cfg AddressSourceNode) 0 (ex_svc [] []) (ServicePort 80 TCP) =
        Inr (emitEndpoints 0 TCP m)"
    by simp
  from bogus 1 ex_bogus_build n2 2 ex_node_build show ?thesis by blast
qed

subsection \<open>Order of the result\<close>

lemma sorted_by_Addr_unique:
  "sorted_wrt (\<lambda>a b. \<not> Less (Addr b) (Addr a)) xs \<Longrightarrow>
   sorted_wrt (\<lambda>a b. \<not> Less (Addr b) (Addr a)) ys \<Longrightarrow>
   mset xs = mset ys \<Longrightarrow> distinct (map Addr xs) \<Longrightarrow> xs = ys"
proof (induction xs arbitrary: ys)
  case Nil
  then show ?case by simp
next
  case (Cons x xs)
  from Cons.prems(3) obtain y ys' where ys: "ys = y # ys'"
    by (cases ys) auto
  have sets: "set (x # xs) = set (y # ys')"
    using Cons.prems(3) unfolding ys by (rule mset_eq_setD)
  have inj: "inj_on Addr (set (x # xs))"
    using Cons.prems(4) by (simp only: distinct_map)
  have "x = y"
  proof (rule ccontr)
    assume ne: "x \<noteq> y"
    with sets have "x \<in> set ys'" and "y \<in> set xs" by auto
    with Cons.prems(1,2) have "\<not> Less (Addr y) (Addr x)" and "\<not> Less (Addr x) (Addr y)"
      unfolding ys by auto
    then have "Addr x = Addr y" by (rule Less_total [rotated])
    moreover from sets have "y \<in> set (x # xs)" by simp
    ultimately have "x = y" using inj by (auto dest: inj_onD)
    with ne show False by simp
  qed
  moreover from this Cons.prems(3) have "mset xs = mset ys'"
    unfolding ys by simp
  with Cons.prems have "xs = ys'"
    unfolding ys by (intro Cons.IH) simp_all
  ultimately show ?case unfolding ys by simp
qed

lemma emitEndpoints_map:
  "emitEndpoints seed proto m =
     map (\<lambda>ip. ServiceEndpoint ip proto) (map se_AddrPort (emitEndpoints seed proto m))"
  by (simp add: emitEndpoints_def comp_def)

lemma mset_emitEndpoints_seed:
  "mset (emitEndpoints seed2 proto m) = mset (emitEndpoints seed1 proto m)"
proof -
  have "mset (map se_AddrPort (emitEndpoints seed2 proto m)) =
        mset (map se_AddrPort (emitEndpoints seed1 proto m))"
    by (simp only: mset_emitEndpoints)
  then have "mset (map (\<lambda>ip. ServiceEndpoint ip proto) (map se_AddrPort (emitEndpoints seed2 proto m))) =
        mset (map (\<lambda>ip. ServiceEndpoint ip proto) (map se_AddrPort (emitEndpoints seed1 proto m)))"
    by (metis mset_map)
  then show ?thesis by (simp only: emitEndpoints_map [symmetric])
qed

lemma emitEndpoints_seed_eq:
  assumes "distinct (map (\<lambda>ep. Addr (se_AddrPort ep)) (emitEndpoints seed1 proto m))"
  shows "emitEndpoints seed2 proto m = emitEndpoints seed1 proto m"
proof -
  let ?k1 = "map se_AddrPort (emitEndpoints seed1 proto m)"
  let ?k2 = "map se_AddrPort (emitEndpoints seed2 proto m)"
  have s1: "sorted_wrt (\<lambda>a b. \<not> Less (Addr b) (Addr a)) ?k1"
    using emitEndpoints_sorted [of seed1 proto m] by (simp add: sorted_wrt_map)
  have s2: "sorted_wrt (\<lambda>a b. \<not> Less (Addr b) (Addr a)) ?k2"
    using emitEndpoints_sorted [of seed2 proto m] by (simp add: sorted_wrt_map)
  have ms: "mset ?k1 = mset ?k2" by (simp only: mset_emitEndpoints)
  have d: "distinct (map Addr ?k1)" using assms by (simp add: comp_def)
  from s1 s2 ms d have "?k1 = ?k2" by (rule sorted_by_Addr_unique)
  then show ?thesis
    by (metis emitEndpoints_map)
qed

lemma node_collectIPs_distinct_Addr:
  assumes node: "AddressSource cfg = AddressSourceNode"
    and m: "collectIPs e cfg svc port = Inr m"
  shows "distinct (map (\<lambda>ep. Addr (se_AddrPort ep)) (emitEndpoints seed proto m))"
proof -
  from m obtain svcPort items where sp: "findServicePort (svc_Ports svc) port = Some svcPort"
    and items: "ListEndpointSlices e (svc_Namespace svc) (svc_Name svc) = Inr items"
    by (auto simp: collectIPs_def split: option.splits sum.splits)
  let ?ks = "map se_AddrPort (emitEndpoints seed proto m)"
  have d: "distinct (map fst m)" using m by (rule distinct_keys_collectIPs)
  then have dk: "distinct ?ks" by (rule emitEndpoints_distinct)
  have port: "Port k = uint16 (csp_NodePort svcPort)" if "k \<in> set ?ks" for k
  proof -
    from that emitEndpoints_set [OF d, of seed proto] have "map_of m k = Some True" by auto
    then have "k \<in> fst ` set m" by (metis domI dom_map_of_conv_image_fst)
    from collectIPs_node_keys [OF node sp items m this] show ?thesis
      unfolding nodeOrigin_def by blast
  qed
  have "inj_on Addr (set ?ks)"
  proof (rule inj_onI)
    fix a b assume "a \<in> set ?ks" "b \<in> set ?ks" "Addr a = Addr b"
    with port have "Addr a = Addr b \<and> Port a = Port b" by simp
    then show "a = b" by (simp add: AddrPort.expand)
  qed
  with dk have "distinct (map Addr ?ks)" by (simp only: distinct_map)
  then show ?thesis by (simp add: comp_def)
qed

text \<open>
  C8, as the code has it. Two runs of the resolver on the same input (they differ only in the
  order in which the runtime enumerates the map) fail with the same error or both return a
  list. The two lists hold the same endpoints and both are in ascending order of address.
  They are identical whenever no two endpoints of the result share an address, and always in
  Node mode.
\<close>

theorem buildEndpoints_runs_agree_up_to_equal_addresses:
  "case buildEndpoints e cfg seed svc port of
     Inl err \<Rightarrow> buildEndpoints e cfg seed' svc port = Inl err
   | Inr eps1 \<Rightarrow>
       (\<exists>eps2. buildEndpoints e cfg seed' svc port = Inr eps2 \<and>
          mset eps2 = mset eps1 \<and>
          sorted_wrt (\<lambda>a b. \<not> Less (Addr (se_AddrPort b)) (Addr (se_AddrPort a))) eps1 \<and>
          sorted_wrt (\<lambda>a b. \<not> Less (Addr (se_AddrPort b)) (Addr (se_AddrPort a))) eps2 \<and>
          (distinct (map (\<lambda>ep. Addr (se_AddrPort ep)) eps1) \<longrightarrow> eps2 = eps1) \<and>
          (AddressSource cfg = AddressSourceNode \<longrightarrow> eps2 = eps1))"
proof (cases "collectIPs e cfg svc port")
  case (Inl err)
  then show ?thesis by (simp add: buildEndpoints_def)
next
  case (Inr m)
  let ?p = "sp_Protocol port"
  have b1: "buildEndpoints e cfg seed svc port = Inr (emitEndpoints seed ?p m)"
    and b2: "buildEndpoints e cfg seed' svc port = Inr (emitEndpoints seed' ?p m)"
    using Inr by (simp_all add: buildEndpoints_def)
  have ms: "mset (emitEndpoints seed' ?p m) = mset (emitEndpoints seed ?p m)"
    by (rule mset_emitEndpoints_seed)
  have eq: "distinct (map (\<lambda>ep. Addr (se_AddrPort ep)) (emitEndpoints seed ?p m)) \<longrightarrow>
      emitEndpoints seed' ?p m = emitEndpoints seed ?p m"
    using emitEndpoints_seed_eq by blast
  have nd: "AddressSource cfg = AddressSourceNode \<longrightarrow>
      emitEndpoints seed' ?p m = emitEndpoints seed ?p m"
    using node_collectIPs_distinct_Addr [OF _ Inr] emitEndpoints_seed_eq by blast
  show ?thesis
    unfolding b1 b2 using ms eq nd emitEndpoints_sorted by simp
qed

lemma ex_two_port_collect:
  "collectIPs (ex_env (ex_svc [] []) ex_two_port_items [] None) (ex_cfg AddressSourcePod)
     (ex_svc [] []) (ServicePort 80 TCP) =
   Inr [(AddrPortFrom (Addr4 0x0A000005) 8080, True),
        (AddrPortFrom (Addr4 0x0A000005) 8081, True)]"
  by (simp add: ex_two_port_items_def ex_defs resolver_defs)

text \<open>
  C8 fails as stated. Two slices of the Service give the address 10.0.0.5 with the ports
  8080 and 8081, both ready. The comparison looks at the address only, so the order of the
  two endpoints is the order in which the map happens to be enumerated: one run returns
  8080 before 8081, another 8081 before 8080.
\<close>

theorem buildEndpoints_order_not_deterministic:
  "buildEndpoints (ex_env (ex_svc [] []) ex_two_port_items [] None) (ex_cfg AddressSourcePod)
     0 (ex_svc [] []) (ServicePort 80 TCP) =
   Inr [ServiceEndpoint (AddrPortFrom (Addr4 0x0A000005) 8080) TCP,
        ServiceEndpoint (AddrPortFrom (Addr4 0x0A000005) 8081) TCP] \<and>
   buildEndpoints (ex_env (ex_svc [] []) ex_two_port_items [] None) (ex_cfg AddressSourcePod)
     1 (ex_svc [] []) (ServicePort 80 TCP) =
   Inr [ServiceEndpoint (AddrPortFrom (Addr4 0x0A000005) 8081) TCP,
        ServiceEndpoint (AddrPortFrom (Addr4 0x0A000005) 8080) TCP] \<and>
   buildEndpoints (ex_env (ex_svc [] []) ex_two_port_items [] None) (ex_cfg AddressSourcePod)
     0 (ex_svc [] []) (ServicePort 80 TCP) \<noteq>
   buildEndpoints (ex_env (ex_svc [] []) ex_two_port_items [] None) (ex_cfg AddressSourcePod)
     1 (ex_svc [] []) (ServicePort 80 TCP)"
  by (simp add: buildEndpoints_def ex_two_port_collect emitEndpoints_def insert_at_def
        sort_Slice_def Less_def Compare_def)

text \<open>
  With distinct addresses the enumeration order does not show: the runs with the orders 4
  and 1 on the slices with duplicates return the same list, and so do two runs in Node mode.
\<close>

theorem buildEndpoints_runs_agree_up_to_equal_addresses_witness:
  "buildEndpoints (ex_env (ex_svc [] []) ex_dup_items [] None) (ex_cfg AddressSourcePod) 4
     (ex_svc [] []) (ServicePort 80 TCP) =
   Inr [ServiceEndpoint (AddrPortFrom (Addr4 0x0A000005) 8080) TCP,
        ServiceEndpoint (AddrPortFrom (Addr4 0x0A000006) 8080) TCP] \<and>
   distinct (map (\<lambda>ep. Addr (se_AddrPort ep))
     [ServiceEndpoint (AddrPortFrom (Addr4 0x0A000005) 8080) TCP,
      ServiceEndpoint (AddrPortFrom (Addr4 0x0A000006) 8080) TCP]) \<and>
   buildEndpoints (ex_env (ex_svc [] []) ex_dup_items [] None) (ex_cfg AddressSourcePod) 1
     (ex_svc [] []) (ServicePort 80 TCP) =
   Inr [ServiceEndpoint (AddrPortFrom (Addr4 0x0A000005) 8080) TCP,
        ServiceEndpoint (AddrPortFrom (Addr4 0x0A000006) 8080) TCP] \<and>
   AddressSource (ex_cfg AddressSourceNode) = AddressSourceNode \<and>
   buildEndpoints (ex_env (ex_svc [] []) ex_node_items ex_nodes None) (ex_cfg AddressSourceNode)
     7 (ex_svc [] []) (ServicePort 80 TCP) =
   buildEndpoints (ex_env (ex_svc [] []) ex_node_items ex_nodes None) (ex_cfg AddressSourceNode)
     0 (ex_svc [] []) (ServicePort 80 TCP)"
proof -
  have d: "distinct (map (\<lambda>ep. Addr (se_AddrPort ep))
     [ServiceEndpoint (AddrPortFrom (Addr4 0x0A000005) 8080) TCP,
      ServiceEndpoint (AddrPortFrom (Addr4 0x0A000006) 8080) TCP])"
    by simp
  have node: "AddressSource (ex_cfg AddressSourceNode) = AddressSourceNode"
    by (simp add: ex_cfg_def)
  from buildEndpoints_runs_agree_up_to_equal_addresses
    [where e = "ex_env (ex_svc [] []) ex_dup_items [] None" and cfg = "ex_cfg AddressSourcePod"
       and seed = 4 and svc = "ex_svc [] []" and port = "ServicePort 80 TCP" and seed' = 1] d
  have 1: "buildEndpoints (ex_env (ex_svc [] []) ex_dup_items [] None) (ex_cfg AddressSourcePod) 1
     (ex_svc [] []) (ServicePort 80 TCP) =
   Inr [ServiceEndpoint (AddrPortFrom (Addr4 0x0A000005) 8080) TCP,
        ServiceEndpoint (AddrPortFrom (Addr4 0x0A000006) 8080) TCP]"
    unfolding ex_dup_build by auto
  from buildEndpoints_runs_agree_up_to_equal_addresses
    [where e = "ex_env (ex_svc [] []) ex_node_items ex_nodes None"
       and cfg = "ex_cfg AddressSourceNode" and seed = 0 and svc = "ex_svc [] []"
       and port = "ServicePort 80 TCP" and seed' = 7] node
  have 2: "buildEndpoints (ex_env (ex_svc [] []) ex_node_items ex_nodes None)
      (ex_cfg AddressSourceNode) 7 (ex_svc [] []) (ServicePort 80 TCP) =
    buildEndpoints (ex_env (ex_svc [] []) ex_node_items ex_nodes None)
      (ex_cfg AddressSourceNode) 0 (ex_svc [] []) (ServicePort 80 TCP)"
    by (auto split: sum.splits)
  from ex_dup_build d 1 node 2 show ?thesis by blast
qed

subsection \<open>The exposure registry\<close>

lemma index_owns_empty: "index emptyGraph p = Some k \<longleftrightarrow> owns emptyGraph k p"
  by (simp add: emptyGraph_def owns_def)

lemma index_owns_update:
  assumes inv: "\<And>p k. index g p = Some k \<longleftrightarrow> owns g k p"
  shows "index (UpdateService g owner data) p = Some k \<longleftrightarrow> owns (UpdateService g owner data) k p"
proof (cases "list_ex (Conflicts g owner) (map fst data)")
  case True
  then show ?thesis using inv by (simp add: UpdateService_def)
next
  case False
  have free: "index g q = None \<or> index g q = Some owner" if "q \<in> fst ` set data" for q
  proof -
    from that False have "\<not> Conflicts g owner q"
      by (auto simp: list_ex_iff)
    then show ?thesis
      by (cases "index g q") (simp_all add: Conflicts_def)
  qed
  show ?thesis
  proof (cases "k = owner")
    case True
    with False show ?thesis by (simp add: UpdateService_def owns_def)
  next
    case ne: False
    have "owns (UpdateService g owner data) k p = owns g k p"
      using False ne by (simp add: UpdateService_def owns_def)
    moreover have "index (UpdateService g owner data) p = Some k \<longleftrightarrow> index g p = Some k"
    proof (cases "p \<in> fst ` set data")
      case True
      with free [of p] ne have "index g p \<noteq> Some k" by auto
      with True False ne show ?thesis by (simp add: UpdateService_def)
    next
      case notin: False
      with False ne show ?thesis by (auto simp: UpdateService_def)
    qed
    ultimately show ?thesis using inv by simp
  qed
qed

lemma index_owns_remove:
  assumes inv: "\<And>p k. index g p = Some k \<longleftrightarrow> owns g k p"
  shows "index (RemoveService g owner) p = Some k \<longleftrightarrow> owns (RemoveService g owner) k p"
proof (cases "owners g owner")
  case None
  then show ?thesis using inv by (simp add: RemoveService_def)
next
  case (Some old)
  show ?thesis
  proof (cases "k = owner")
    case True
    with Some show ?thesis by (simp add: RemoveService_def owns_def)
  next
    case False
    with Some have "owns (RemoveService g owner) k p = owns g k p"
      by (simp add: RemoveService_def owns_def)
    moreover from Some False
    have "index (RemoveService g owner) p = Some k \<longleftrightarrow> index g p = Some k"
      by (auto simp: RemoveService_def)
    ultimately show ?thesis using inv by simp
  qed
qed

lemma reachable_index_owns: "reachable g \<Longrightarrow> index g p = Some k \<longleftrightarrow> owns g k p"
proof (induction arbitrary: p k rule: reachable.induct)
  case reachable_empty
  show ?case by (rule index_owns_empty)
next
  case (reachable_update g owner data)
  show ?case by (rule index_owns_update) (rule reachable_update.IH)
next
  case (reachable_remove g owner)
  show ?case by (rule index_owns_remove) (rule reachable_remove.IH)
qed

lemma UpdateService_accepted:
  "\<not> list_ex (Conflicts g owner) (map fst data) \<Longrightarrow>
   UpdateService g owner data =
     \<lparr>owners = (owners g)(owner \<mapsto> data),
      index = (\<lambda>p. if p \<in> fst ` set data then Some owner
                    else if index g p = Some owner then None else index g p),
      version = Suc (version g)\<rparr>"
  by (simp add: UpdateService_def)

text \<open>
  C2. In every state of the registry each port is owned by at most one key (and the
  ownership index names exactly that key). When \<^verbatim>\<open>UpdateService(owner, data)\<close> is
  accepted, that is when no port of \<open>data\<close> is claimed by another key, then for every port
  \<open>P\<close> of \<open>data\<close> the data is stored for \<open>owner\<close>, \<^verbatim>\<open>Conflicts(owner, P)\<close> is false and
  \<^verbatim>\<open>Conflicts(k, P)\<close> is true for every other key \<open>k\<close>.
\<close>

theorem registry_port_ownership_unique:
  assumes "reachable g"
  shows "(\<forall>p k k'. owns g k p \<and> owns g k' p \<longrightarrow> k = k') \<and>
         (\<forall>p k. index g p = Some k \<longleftrightarrow> owns g k p) \<and>
         (\<forall>owner data P.
            \<not> list_ex (Conflicts g owner) (map fst data) \<and> P \<in> fst ` set data \<longrightarrow>
            owns (UpdateService g owner data) owner P \<and>
            \<not> Conflicts (UpdateService g owner data) owner P \<and>
            (\<forall>k. k \<noteq> owner \<longrightarrow> Conflicts (UpdateService g owner data) k P))"
proof (intro conjI allI impI)
  fix p k k' assume "owns g k p \<and> owns g k' p"
  then have "index g p = Some k" and "index g p = Some k'"
    using reachable_index_owns [OF assms] by simp_all
  then show "k = k'" by simp
next
  fix p k show "index g p = Some k \<longleftrightarrow> owns g k p"
    using assms by (rule reachable_index_owns)
next
  fix owner :: ServiceKey and data :: ServiceData and P :: ServicePort
  assume h: "\<not> list_ex (Conflicts g owner) (map fst data) \<and> P \<in> fst ` set data"
  then show "owns (UpdateService g owner data) owner P"
    by (simp add: UpdateService_accepted owns_def)
  from h show "\<not> Conflicts (UpdateService g owner data) owner P"
    by (simp add: UpdateService_accepted Conflicts_def)
  fix k :: ServiceKey assume "k \<noteq> owner"
  with h show "Conflicts (UpdateService g owner data) k P"
    by (auto simp: UpdateService_accepted Conflicts_def)
qed

text \<open>
  From the empty registry, \<^verbatim>\<open>default/other\<close> claims 80/TCP and then \<^verbatim>\<open>default/web\<close>
  claims 443/TCP: each sees no conflict on its own port and a conflict on the other's, and a
  later update of \<^verbatim>\<open>web\<close> that asks for 80/TCP is rejected, leaving the state as it was.
\<close>

theorem registry_port_ownership_unique_witness:
  "reachable ex_graph \<and>
   \<not> list_ex (Conflicts ex_graph ex_web) (map fst [(ServicePort 443 TCP, ex_portData)]) \<and>
   ServicePort 443 TCP \<in> fst ` set [(ServicePort 443 TCP, ex_portData)] \<and>
   \<not> Conflicts (UpdateService ex_graph ex_web [(ServicePort 443 TCP, ex_portData)])
       ex_web (ServicePort 443 TCP) \<and>
   Conflicts (UpdateService ex_graph ex_web [(ServicePort 443 TCP, ex_portData)])
       ex_other (ServicePort 443 TCP) \<and>
   Conflicts ex_graph ex_web (ServicePort 80 TCP) \<and>
   UpdateService ex_graph ex_web [(ServicePort 80 TCP, ex_portData)] = ex_graph"
proof -
  have ne: "ex_other \<noteq> ex_web" by (simp add: ex_other_def ex_web_def)
  have r: "reachable ex_graph"
    unfolding ex_graph_def by (rule reachable_update) (rule reachable_empty)
  have free: "\<not> list_ex (Conflicts ex_graph ex_web)
      (map fst [(ServicePort 443 TCP, ex_portData)]) \<and>
    ServicePort 443 TCP \<in> fst ` set [(ServicePort 443 TCP, ex_portData)]"
    by (simp add: ex_graph_def UpdateService_def emptyGraph_def Conflicts_def)
  note after = registry_port_ownership_unique
    [OF r, THEN conjunct2, THEN conjunct2, rule_format, OF free]
  have 1: "\<not> Conflicts (UpdateService ex_graph ex_web [(ServicePort 443 TCP, ex_portData)])
       ex_web (ServicePort 443 TCP)"
    by (rule after [THEN conjunct2, THEN conjunct1])
  have 2: "Conflicts (UpdateService ex_graph ex_web [(ServicePort 443 TCP, ex_portData)])
       ex_other (ServicePort 443 TCP)"
    by (rule after [THEN conjunct2, THEN conjunct2, rule_format, OF ne])
  have c: "Conflicts ex_graph ex_web (ServicePort 80 TCP)"
    using ne by (simp add: ex_graph_def UpdateService_def emptyGraph_def Conflicts_def)
  then have 3: "UpdateService ex_graph ex_web [(ServicePort 80 TCP, ex_portData)] = ex_graph"
    by (simp add: UpdateService_def)
  from r free 1 2 c 3 show ?thesis by (intro conjI) simp_all
qed

subsection \<open>Reconciliation\<close>

lemma firstConflict_Some:
  "firstConflict g key ports = Some port \<Longrightarrow> port \<in> set ports \<and> Conflicts g key port"
  by (induction ports) (auto split: if_splits)

lemma firstConflict_None:
  "firstConflict g key ports = None \<longleftrightarrow> (\<forall>p\<in>set ports. \<not> Conflicts g key p)"
  by (induction ports) auto

lemma firstConflict_exists:
  "p \<in> set ports \<Longrightarrow> Conflicts g key p \<Longrightarrow> \<exists>port. firstConflict g key ports = Some port"
  using firstConflict_None [of g key ports] by (cases "firstConflict g key ports") auto

text \<open>
  C1. Let the Service be found and eligible, and let \<^verbatim>\<open>Conflicts\<close> be true for one of its
  accepted ports. Then \<^verbatim>\<open>Reconcile\<close> returns a requeue after one minute (in nanoseconds)
  and no error; the registry is the one it started with; and the only thing the pass did
  is to emit one warning event with reason \<^verbatim>\<open>Conflict\<close> on the Service, naming an accepted
  port that conflicts (the first one): \<^verbatim>\<open>buildServiceData\<close>, \<^verbatim>\<open>UpdateService\<close> and
  \<^verbatim>\<open>RemoveService\<close> were not called.
\<close>

theorem Reconcile_conflict_requeues_without_mutation:
  assumes "GetService e req = Inr svc" and "shouldManage cfg svc"
    and "p \<in> set (getServicePorts svc)" and "Conflicts (graph w) req p"
  shows "\<exists>port w'.
           port \<in> set (getServicePorts svc) \<and> Conflicts (graph w) req port \<and>
           Reconcile e cfg rand req w = (w', \<lparr>RequeueAfter = 60 * 1000000000\<rparr>, None) \<and>
           graph w' = graph w \<and>
           trace w' = trace w @
             [Eventf svc ''Warning'' ''Conflict''
                ''Service could not be allocated due to a conflicting port %v'' port]"
proof -
  from assms(3,4) obtain port where
    fc: "firstConflict (graph w) req (getServicePorts svc) = Some port"
    using firstConflict_exists by blast
  then have "port \<in> set (getServicePorts svc) \<and> Conflicts (graph w) req port"
    by (rule firstConflict_Some)
  moreover have "Reconcile e cfg rand req w =
      (act (Eventf svc ''Warning'' ''Conflict''
              ''Service could not be allocated due to a conflicting port %v'' port) w,
       \<lparr>RequeueAfter = 60 * 1000000000\<rparr>, None)"
    using assms(1,2) fc by (simp add: Reconcile_def Minute_def)
  ultimately show ?thesis by (simp add: act_def)
qed

lemma buildPorts_keys:
  "buildPorts e cfg rand svc upp idle allowed ports data0 = Inr data \<Longrightarrow>
   fst ` set data = fst ` set data0 \<union> set ports"
proof (induction ports arbitrary: data0)
  case Nil
  then show ?case by simp
next
  case (Cons port rest)
  from Cons.prems obtain endpoints where
    "buildPorts e cfg rand svc upp idle allowed rest
       (AList.update port \<lparr>Endpoints = endpoints, UseProxyProtocol = upp,
          IdleTimeout = idle, AllowedIPRanges = allowed\<rparr> data0) = Inr data"
    by (auto split: sum.splits)
  from Cons.IH [OF this] show ?case by (auto simp: dom_update)
qed

lemma buildPorts_lookup:
  "buildPorts e cfg rand svc upp idle allowed ports data0 = Inr data \<Longrightarrow> port \<in> set ports \<Longrightarrow>
   \<exists>endpoints. buildEndpoints e cfg (rand port) svc port = Inr endpoints \<and>
      map_of data port = Some \<lparr>Endpoints = endpoints, UseProxyProtocol = upp,
          IdleTimeout = idle, AllowedIPRanges = allowed\<rparr>"
proof (induction ports arbitrary: data0)
  case Nil
  then show ?case by simp
next
  case (Cons q rest)
  from Cons.prems(1) obtain endpoints where
    be: "buildEndpoints e cfg (rand q) svc q = Inr endpoints"
    and rest: "buildPorts e cfg rand svc upp idle allowed rest
       (AList.update q \<lparr>Endpoints = endpoints, UseProxyProtocol = upp,
          IdleTimeout = idle, AllowedIPRanges = allowed\<rparr> data0) = Inr data"
    by (auto split: sum.splits)
  show ?case
  proof (cases "port \<in> set rest")
    case True
    from Cons.IH [OF rest True] show ?thesis .
  next
    case False
    with Cons.prems(2) have eq: "port = q" by simp
    have keep: "buildPorts e cfg rand svc upp idle allowed ps d0 = Inr d \<Longrightarrow> port \<notin> set ps \<Longrightarrow>
        map_of d port = map_of d0 port" for ps d0 d
      by (induction ps arbitrary: d0) (auto split: sum.splits simp: update_conv')
    from keep [OF rest False] be show ?thesis
      by (simp add: eq update_conv')
  qed
qed

lemma buildServiceData_Inr:
  assumes "buildServiceData e cfg rand svc ports = Inr data"
  shows "\<exists>idle allowed.
     parseIdleTimeout e svc = Inr idle \<and>
     parseSourceRanges e (svc_LoadBalancerSourceRanges svc) [] = Inr allowed \<and>
     buildPorts e cfg rand svc (annotation svc proxyProtocolAnnotation = ''true'') idle allowed
       ports NewServiceData = Inr data"
  using assms by (auto simp: buildServiceData_def Let_def split: sum.splits)

lemma buildServiceData_keys:
  assumes "buildServiceData e cfg rand svc ports = Inr data"
  shows "fst ` set data = set ports"
proof -
  from buildServiceData_Inr [OF assms] obtain idle allowed where
    "buildPorts e cfg rand svc (annotation svc proxyProtocolAnnotation = ''true'') idle allowed
       ports NewServiceData = Inr data" by blast
  from buildPorts_keys [OF this] show ?thesis by (simp add: NewServiceData_def)
qed

lemma UpdateService_no_conflicts:
  assumes "\<forall>p\<in>set ports. \<not> Conflicts g req p" and "fst ` set data = set ports"
  shows "owners (UpdateService g req data) req = Some data"
proof -
  from assms have "\<not> list_ex (Conflicts g req) (map fst data)"
    by (auto simp: list_ex_iff)
  then show ?thesis by (simp add: UpdateService_accepted)
qed

lemma Reconcile_commit:
  assumes "GetService e req = Inr svc" and "shouldManage cfg svc"
    and "\<forall>p\<in>set (getServicePorts svc). \<not> Conflicts (graph w) req p"
    and "buildServiceData e cfg rand svc (getServicePorts svc) = Inr data"
  shows "Reconcile e cfg rand req w =
           (\<lparr>graph = UpdateService (graph w) req data,
             trace = trace w @
               [CallBuildServiceData req, CallUpdateService req data,
                CallStatusUpdate (svc\<lparr>svc_Ingress := map ingressOf (IngressStatus cfg)\<rparr>)]\<rparr>,
            \<lparr>RequeueAfter = 0\<rparr>,
            StatusUpdate e (svc\<lparr>svc_Ingress := map ingressOf (IngressStatus cfg)\<rparr>))"
proof -
  from assms(3) have "firstConflict (graph w) req (getServicePorts svc) = None"
    by (simp add: firstConflict_None)
  with assms(1,2,4) show ?thesis
    by (cases "StatusUpdate e (svc\<lparr>svc_Ingress := map ingressOf (IngressStatus cfg)\<rparr>)")
       (simp_all add: Reconcile_def updateStatus_def act_def Let_def)
qed

text \<open>
  C9. Let the Service be found, eligible and free of conflicts, and let
  \<^verbatim>\<open>buildServiceData\<close> produce \<open>data\<close>. Then the pass calls \<^verbatim>\<open>UpdateService\<close> and after
  it the status write, in this order; what \<^verbatim>\<open>Reconcile\<close> returns as its error is exactly
  the answer of the status write; and whatever that answer is, also a failure, the registry
  is the committed one and holds \<open>data\<close> for the Service.
\<close>

theorem Reconcile_commits_before_status_write:
  assumes "GetService e req = Inr svc" and "shouldManage cfg svc"
    and "\<forall>p\<in>set (getServicePorts svc). \<not> Conflicts (graph w) req p"
    and "buildServiceData e cfg rand svc (getServicePorts svc) = Inr data"
  shows "\<exists>w'. Reconcile e cfg rand req w =
           (w', \<lparr>RequeueAfter = 0\<rparr>,
            StatusUpdate e (svc\<lparr>svc_Ingress := map ingressOf (IngressStatus cfg)\<rparr>)) \<and>
         graph w' = UpdateService (graph w) req data \<and>
         owners (graph w') req = Some data \<and>
         trace w' = trace w @
           [CallBuildServiceData req, CallUpdateService req data,
            CallStatusUpdate (svc\<lparr>svc_Ingress := map ingressOf (IngressStatus cfg)\<rparr>)]"
proof -
  have "owners (UpdateService (graph w) req data) req = Some data"
    using assms(3) buildServiceData_keys [OF assms(4)] by (rule UpdateService_no_conflicts)
  with Reconcile_commit [OF assms] show ?thesis by simp
qed

lemma ex_GetService: "GetService (ex_env (ex_svc anns ranges) items nodes st) ex_web =
    Inr (ex_svc anns ranges)"
  by (simp add: ex_env_def ex_svc_def ex_web_def)

lemma ex_shouldManage: "shouldManage (ex_cfg src) (ex_svc anns ranges)"
  by (simp add: shouldManage_def ex_cfg_def ex_svc_def)

lemma ex_getServicePorts: "getServicePorts (ex_svc anns ranges) = [ServicePort 80 TCP]"
  by (simp add: getServicePorts_def ex_svc_def ex_port_def)

lemma ex_graph_conflict: "Conflicts ex_graph ex_web (ServicePort 80 TCP)"
  by (simp add: ex_graph_def UpdateService_def emptyGraph_def Conflicts_def ex_web_def
        ex_other_def)

lemma world_eqI: "graph w = g \<Longrightarrow> trace w = t \<Longrightarrow> (w :: world) = \<lparr>graph = g, trace = t\<rparr>"
  by (cases w) simp

text \<open>
  \<^verbatim>\<open>default/other\<close> holds 80/TCP when \<^verbatim>\<open>default/web\<close> asks for it: one event, a requeue
  after a minute, the registry untouched.
\<close>

theorem Reconcile_conflict_requeues_without_mutation_witness:
  "GetService (ex_env (ex_svc [] []) [] [] None) ex_web = Inr (ex_svc [] []) \<and>
   shouldManage (ex_cfg AddressSourcePod) (ex_svc [] []) \<and>
   ServicePort 80 TCP \<in> set (getServicePorts (ex_svc [] [])) \<and>
   Conflicts (graph \<lparr>graph = ex_graph, trace = []\<rparr>) ex_web (ServicePort 80 TCP) \<and>
   Reconcile (ex_env (ex_svc [] []) [] [] None) (ex_cfg AddressSourcePod) (\<lambda>p. 0) ex_web
     \<lparr>graph = ex_graph, trace = []\<rparr> =
   (\<lparr>graph = ex_graph,
     trace = [Eventf (ex_svc [] []) ''Warning'' ''Conflict''
                ''Service could not be allocated due to a conflicting port %v''
                (ServicePort 80 TCP)]\<rparr>,
    \<lparr>RequeueAfter = 60000000000\<rparr>, None)"
proof -
  let ?w = "\<lparr>graph = ex_graph, trace = []\<rparr>"
  have mem: "ServicePort 80 TCP \<in> set (getServicePorts (ex_svc [] []))"
    by (simp add: ex_getServicePorts)
  have c: "Conflicts (graph ?w) ex_web (ServicePort 80 TCP)"
    by (simp add: ex_graph_conflict)
  from Reconcile_conflict_requeues_without_mutation
    [OF ex_GetService ex_shouldManage mem c, of "[]" "[]" None AddressSourcePod "\<lambda>p. 0"]
  obtain port w' where port: "port \<in> set (getServicePorts (ex_svc [] []))"
    and r: "Reconcile (ex_env (ex_svc [] []) [] [] None) (ex_cfg AddressSourcePod) (\<lambda>p. 0)
        ex_web ?w = (w', \<lparr>RequeueAfter = 60 * 1000000000\<rparr>, None)"
    and g: "graph w' = graph ?w"
    and t: "trace w' = trace ?w @
             [Eventf (ex_svc [] []) ''Warning'' ''Conflict''
                ''Service could not be allocated due to a conflicting port %v'' port]"
    by blast
  from port have p80: "port = ServicePort 80 TCP" by (simp add: ex_getServicePorts)
  from g t have "w' = \<lparr>graph = ex_graph,
     trace = [Eventf (ex_svc [] []) ''Warning'' ''Conflict''
                ''Service could not be allocated due to a conflicting port %v''
                (ServicePort 80 TCP)]\<rparr>"
    unfolding p80 by (intro world_eqI) simp_all
  with r have "Reconcile (ex_env (ex_svc [] []) [] [] None) (ex_cfg AddressSourcePod) (\<lambda>p. 0)
      ex_web ?w =
   (\<lparr>graph = ex_graph,
     trace = [Eventf (ex_svc [] []) ''Warning'' ''Conflict''
                ''Service could not be allocated due to a conflicting port %v''
                (ServicePort 80 TCP)]\<rparr>,
    \<lparr>RequeueAfter = 60000000000\<rparr>, None)"
    by simp
  with ex_GetService [of "[]" "[]" "[]" "[]" None] ex_shouldManage [of AddressSourcePod "[]" "[]"]
    mem c
  show ?thesis by (intro conjI) assumption+
qed

lemmas reconcile_defs =
  buildServiceData_def parseIdleTimeout_def annotation_def proxyProtocolAnnotation_def
  idleTimeoutAnnotation_def NewServiceData_def buildEndpoints_def emitEndpoints_def
  sort_Slice_def insert_at_def

lemma ex_buildServiceData_empty:
  "buildServiceData (ex_env (ex_svc [] []) [] [] st) (ex_cfg AddressSourcePod) rand
     (ex_svc [] []) [ServicePort 80 TCP] = Inr [(ServicePort 80 TCP, ex_portData)]"
  by (simp add: reconcile_defs ex_portData_def ex_defs resolver_defs)

text \<open>
  The status write of \<^verbatim>\<open>default/web\<close> is refused by the API: \<^verbatim>\<open>Reconcile\<close> returns that
  error, and the registry holds the data committed just before.
\<close>

theorem Reconcile_commits_before_status_write_witness:
  "GetService (ex_env (ex_svc [] []) [] [] (Some (ApiError ''refused''))) ex_web =
     Inr (ex_svc [] []) \<and>
   shouldManage (ex_cfg AddressSourcePod) (ex_svc [] []) \<and>
   buildServiceData (ex_env (ex_svc [] []) [] [] (Some (ApiError ''refused'')))
     (ex_cfg AddressSourcePod) (\<lambda>p. 0) (ex_svc [] []) (getServicePorts (ex_svc [] [])) =
     Inr [(ServicePort 80 TCP, ex_portData)] \<and>
   (\<exists>w'. Reconcile (ex_env (ex_svc [] []) [] [] (Some (ApiError ''refused'')))
            (ex_cfg AddressSourcePod) (\<lambda>p. 0) ex_web \<lparr>graph = emptyGraph, trace = []\<rparr> =
          (w', \<lparr>RequeueAfter = 0\<rparr>, Some (ApiError ''refused'')) \<and>
        owners (graph w') ex_web = Some [(ServicePort 80 TCP, ex_portData)] \<and>
        trace w' =
          [CallBuildServiceData ex_web,
           CallUpdateService ex_web [(ServicePort 80 TCP, ex_portData)],
           CallStatusUpdate ((ex_svc [] [])\<lparr>svc_Ingress :=
              [\<lparr>lbi_IP = ''192.0.2.1'', lbi_Hostname = []\<rparr>]\<rparr>)])"
proof -
  let ?e = "ex_env (ex_svc [] []) [] [] (Some (ApiError ''refused''))"
  let ?w = "\<lparr>graph = emptyGraph, trace = []\<rparr>"
  have free: "\<forall>p\<in>set (getServicePorts (ex_svc [] [])). \<not> Conflicts (graph ?w) ex_web p"
    by (simp add: emptyGraph_def Conflicts_def)
  have b: "buildServiceData ?e (ex_cfg AddressSourcePod) (\<lambda>p. 0) (ex_svc [] [])
      (getServicePorts (ex_svc [] [])) = Inr [(ServicePort 80 TCP, ex_portData)]"
    by (simp only: ex_getServicePorts ex_buildServiceData_empty)
  have st: "StatusUpdate ?e s = Some (ApiError ''refused'')" for s
    by (simp add: ex_env_def)
  have ing: "map ingressOf (IngressStatus (ex_cfg AddressSourcePod)) =
      [\<lparr>lbi_IP = ''192.0.2.1'', lbi_Hostname = []\<rparr>]"
    by (simp add: ex_cfg_def ingressOf_def)
  from Reconcile_commits_before_status_write [OF ex_GetService ex_shouldManage free b]
  have "\<exists>w'. Reconcile ?e (ex_cfg AddressSourcePod) (\<lambda>p. 0) ex_web ?w =
          (w', \<lparr>RequeueAfter = 0\<rparr>, Some (ApiError ''refused'')) \<and>
        owners (graph w') ex_web = Some [(ServicePort 80 TCP, ex_portData)] \<and>
        trace w' =
          [CallBuildServiceData ex_web,
           CallUpdateService ex_web [(ServicePort 80 TCP, ex_portData)],
           CallStatusUpdate ((ex_svc [] [])\<lparr>svc_Ingress :=
              [\<lparr>lbi_IP = ''192.0.2.1'', lbi_Hostname = []\<rparr>]\<rparr>)]"
    unfolding st ing by auto
  with ex_GetService [of "[]" "[]" "[]" "[]" "Some (ApiError ''refused'')"]
    ex_shouldManage [of AddressSourcePod "[]" "[]"] b
  show ?thesis by (intro conjI) assumption+
qed

lemma getServicePorts_loop_acc:
  "set acc \<subseteq> set (getServicePorts_loop ps acc)"
  by (induction ps arbitrary: acc) (auto, force+)

lemma getServicePorts_loop_mem:
  "sp \<in> set ps \<Longrightarrow>
   (csp_Protocol sp = ''TCP'' \<longrightarrow> ServicePort (csp_Port sp) TCP \<in> set (getServicePorts_loop ps acc)) \<and>
   (csp_Protocol sp = ''UDP'' \<longrightarrow> ServicePort (csp_Port sp) UDP \<in> set (getServicePorts_loop ps acc))"
proof (induction ps arbitrary: acc)
  case Nil
  then show ?case by simp
next
  case (Cons q rest)
  show ?case
  proof (cases "sp = q")
    case True
    have "ServicePort (csp_Port q) TCP
        \<in> set (getServicePorts_loop rest (acc @ [ServicePort (csp_Port q) TCP]))"
      using getServicePorts_loop_acc [of "acc @ [ServicePort (csp_Port q) TCP]" rest] by auto
    moreover have "ServicePort (csp_Port q) UDP
        \<in> set (getServicePorts_loop rest (acc @ [ServicePort (csp_Port q) UDP]))"
      using getServicePorts_loop_acc [of "acc @ [ServicePort (csp_Port q) UDP]" rest] by auto
    ultimately show ?thesis using True by simp
  next
    case False
    with Cons.prems have "sp \<in> set rest" by simp
    from Cons.IH [OF this] show ?thesis by simp
  qed
qed

lemma getServicePorts_mem:
  assumes "sp \<in> set (svc_Ports svc)"
  shows "csp_Protocol sp = ''TCP'' \<Longrightarrow> ServicePort (csp_Port sp) TCP \<in> set (getServicePorts svc)"
    and "csp_Protocol sp = ''UDP'' \<Longrightarrow> ServicePort (csp_Port sp) UDP \<in> set (getServicePorts svc)"
  using getServicePorts_loop_mem [OF assms, of "[]"] by (simp_all add: getServicePorts_def)

text \<open>
  C10. Let the Service be found, eligible and free of conflicts, and let \<^verbatim>\<open>Reconcile\<close>
  return without error. Then the registry holds data for the Service in which every declared
  port with protocol TCP or UDP is a key. Its entry carries the endpoints the resolver
  returned for that port, whatever they are, also none at all, and the three settings of
  the Service: proxy protocol on exactly when the annotation is \<^verbatim>\<open>"true"\<close>, the parsed idle
  timeout, the parsed source ranges.
\<close>

theorem Reconcile_claims_every_accepted_port:
  assumes "GetService e req = Inr svc" and "shouldManage cfg svc"
    and "\<forall>p\<in>set (getServicePorts svc). \<not> Conflicts (graph w) req p"
    and "Reconcile e cfg rand req w = (w', res, None)"
    and "sp \<in> set (svc_Ports svc)" and "acceptedProtocol sp = Some proto"
  shows "\<exists>data pd.
           owners (graph w') req = Some data \<and>
           map_of data (ServicePort (csp_Port sp) proto) = Some pd \<and>
           buildEndpoints e cfg (rand (ServicePort (csp_Port sp) proto)) svc
             (ServicePort (csp_Port sp) proto) = Inr (Endpoints pd) \<and>
           UseProxyProtocol pd = (annotation svc proxyProtocolAnnotation = ''true'') \<and>
           parseIdleTimeout e svc = Inr (IdleTimeout pd) \<and>
           parseSourceRanges e (svc_LoadBalancerSourceRanges svc) [] = Inr (AllowedIPRanges pd)"
proof -
  let ?port = "ServicePort (csp_Port sp) proto"
  from assms(3) have nc: "firstConflict (graph w) req (getServicePorts svc) = None"
    by (simp add: firstConflict_None)
  obtain data where b: "buildServiceData e cfg rand svc (getServicePorts svc) = Inr data"
  proof (cases "buildServiceData e cfg rand svc (getServicePorts svc)")
    case (Inl err)
    with assms(1,2,4) nc have False by (simp add: Reconcile_def Let_def)
    then show ?thesis ..
  next
    case (Inr data)
    with that show ?thesis .
  qed
  from Reconcile_commit [OF assms(1,2,3) b] assms(4)
  have "graph w' = UpdateService (graph w) req data" by auto
  moreover have "owners (UpdateService (graph w) req data) req = Some data"
    using assms(3) buildServiceData_keys [OF b] by (rule UpdateService_no_conflicts)
  ultimately have o: "owners (graph w') req = Some data" by simp
  from assms(5,6) have mem: "?port \<in> set (getServicePorts svc)"
    using getServicePorts_mem [of sp svc]
    by (auto simp: acceptedProtocol_def split: if_splits)
  from buildServiceData_Inr [OF b] obtain idle allowed where
    idle: "parseIdleTimeout e svc = Inr idle"
    and allowed: "parseSourceRanges e (svc_LoadBalancerSourceRanges svc) [] = Inr allowed"
    and bp: "buildPorts e cfg rand svc (annotation svc proxyProtocolAnnotation = ''true'')
       idle allowed (getServicePorts svc) NewServiceData = Inr data"
    by blast
  from buildPorts_lookup [OF bp mem] obtain endpoints where
    "buildEndpoints e cfg (rand ?port) svc ?port = Inr endpoints"
    and "map_of data ?port =
       Some \<lparr>Endpoints = endpoints,
             UseProxyProtocol = (annotation svc proxyProtocolAnnotation = ''true''),
             IdleTimeout = idle, AllowedIPRanges = allowed\<rparr>"
    by blast
  with o idle allowed show ?thesis by simp
qed

lemma ex_settings_build:
  "buildServiceData (ex_env (ex_svc ex_settings [''10.0.0.0/8'']) ex_unready_items [] None)
     (ex_cfg AddressSourcePod) rand (ex_svc ex_settings [''10.0.0.0/8'']) [ServicePort 80 TCP] =
   Inr [(ServicePort 80 TCP,
         \<lparr>Endpoints = [], UseProxyProtocol = True, IdleTimeout = Some 30000000000,
          AllowedIPRanges = [(Addr4 0x0A000000, 8)]\<rparr>)]"
  by (simp add: reconcile_defs ex_settings_def ex_unready_items_def ex_defs resolver_defs)

text \<open>
  \<^verbatim>\<open>default/web\<close> with proxy protocol, an idle timeout of 30s and one source range, and
  no ready endpoint: port 80/TCP is committed with an empty endpoint list and the settings.
\<close>

theorem Reconcile_claims_every_accepted_port_witness:
  "GetService (ex_env (ex_svc ex_settings [''10.0.0.0/8'']) ex_unready_items [] None) ex_web =
     Inr (ex_svc ex_settings [''10.0.0.0/8'']) \<and>
   shouldManage (ex_cfg AddressSourcePod) (ex_svc ex_settings [''10.0.0.0/8'']) \<and>
   ex_port \<in> set (svc_Ports (ex_svc ex_settings [''10.0.0.0/8''])) \<and>
   acceptedProtocol ex_port = Some TCP \<and>
   snd (Reconcile (ex_env (ex_svc ex_settings [''10.0.0.0/8'']) ex_unready_items [] None)
          (ex_cfg AddressSourcePod) (\<lambda>p. 0) ex_web \<lparr>graph = emptyGraph, trace = []\<rparr>) =
     (\<lparr>RequeueAfter = 0\<rparr>, None) \<and>
   (\<exists>data pd.
      owners (graph (fst (Reconcile
          (ex_env (ex_svc ex_settings [''10.0.0.0/8'']) ex_unready_items [] None)
          (ex_cfg AddressSourcePod) (\<lambda>p. 0) ex_web \<lparr>graph = emptyGraph, trace = []\<rparr>)))
        ex_web = Some data \<and>
      map_of data (ServicePort 80 TCP) = Some pd \<and>
      Endpoints pd = [] \<and> UseProxyProtocol pd \<and> IdleTimeout pd = Some 30000000000 \<and>
      AllowedIPRanges pd = [(Addr4 0x0A000000, 8)])"
proof -
  let ?svc = "ex_svc ex_settings [''10.0.0.0/8'']"
  let ?e = "ex_env ?svc ex_unready_items [] None"
  let ?cfg = "ex_cfg AddressSourcePod"
  let ?w = "\<lparr>graph = emptyGraph, trace = []\<rparr>"
  let ?R = "Reconcile ?e ?cfg (\<lambda>p. 0) ex_web ?w"
  have free: "\<forall>p\<in>set (getServicePorts ?svc). \<not> Conflicts (graph ?w) ex_web p"
    by (simp add: emptyGraph_def Conflicts_def)
  have b: "buildServiceData ?e ?cfg (\<lambda>p. 0) ?svc (getServicePorts ?svc) =
      Inr [(ServicePort 80 TCP,
         \<lparr>Endpoints = [], UseProxyProtocol = True, IdleTimeout = Some 30000000000,
          AllowedIPRanges = [(Addr4 0x0A000000, 8)]\<rparr>)]"
    by (simp only: ex_getServicePorts ex_settings_build)
  have st: "StatusUpdate ?e s = None" for s by (simp add: ex_env_def)
  have r: "?R = (fst ?R, \<lparr>RequeueAfter = 0\<rparr>, None)"
    using Reconcile_commit [OF ex_GetService ex_shouldManage free b] by (simp add: st)
  have mem: "ex_port \<in> set (svc_Ports ?svc)" by (simp add: ex_svc_def)
  have acc: "acceptedProtocol ex_port = Some TCP"
    by (simp add: acceptedProtocol_def ex_port_def)
  have p80: "csp_Port ex_port = 80" by (simp add: ex_port_def)
  have be: "buildEndpoints ?e ?cfg 0 ?svc (ServicePort 80 TCP) = Inr []"
    by (simp add: reconcile_defs ex_settings_def ex_unready_items_def ex_defs resolver_defs)
  have pp: "annotation ?svc proxyProtocolAnnotation = ''true''"
    by (simp add: annotation_def proxyProtocolAnnotation_def ex_settings_def ex_svc_def)
  have idle: "parseIdleTimeout ?e ?svc = Inr (Some 30000000000)"
    by (simp add: parseIdleTimeout_def annotation_def idleTimeoutAnnotation_def ex_settings_def
          ex_svc_def ex_env_def ex_duration_def)
  have ranges: "parseSourceRanges ?e (svc_LoadBalancerSourceRanges ?svc) [] =
      Inr [(Addr4 0x0A000000, 8)]"
    by (simp add: ex_svc_def ex_env_def ex_prefix_def)
  from Reconcile_claims_every_accepted_port
    [OF ex_GetService ex_shouldManage free r mem acc]
  obtain data pd where "owners (graph (fst ?R)) ex_web = Some data"
    and "map_of data (ServicePort 80 TCP) = Some pd"
    and "Endpoints pd = []" and "UseProxyProtocol pd"
    and "IdleTimeout pd = Some 30000000000"
    and "AllowedIPRanges pd = [(Addr4 0x0A000000, 8)]"
    unfolding p80 be pp idle ranges by auto
  then have ex: "\<exists>data pd. owners (graph (fst ?R)) ex_web = Some data \<and>
      map_of data (ServicePort 80 TCP) = Some pd \<and>
      Endpoints pd = [] \<and> UseProxyProtocol pd \<and> IdleTimeout pd = Some 30000000000 \<and>
      AllowedIPRanges pd = [(Addr4 0x0A000000, 8)]"
    by blast
  from r have "snd ?R = (\<lparr>RequeueAfter = 0\<rparr>, None)"
    by (metis snd_conv)
  with ex_GetService [of ex_settings "[''10.0.0.0/8'']" ex_unready_items "[]" None]
    ex_shouldManage [of AddressSourcePod ex_settings "[''10.0.0.0/8'']"] mem acc ex
  show ?thesis by (intro conjI) assumption+
qed

subsection \<open>Malformed settings\<close>

lemma parseSourceRanges_malformed:
  "r \<in> set ranges \<Longrightarrow> isl (ParsePrefix e r) \<Longrightarrow>
   \<exists>r' err. ParsePrefix e r' = Inl err \<and> parseSourceRanges e ranges allowed = Inl err"
proof (induction ranges arbitrary: allowed)
  case Nil
  then show ?case by simp
next
  case (Cons ip rest)
  show ?case
  proof (cases "ParsePrefix e ip")
    case (Inl err)
    then have "parseSourceRanges e (ip # rest) allowed = Inl err" by simp
    with Inl show ?thesis by blast
  next
    case (Inr prefix)
    with Cons.prems have "r \<in> set rest" by auto
    from Cons.IH [OF this Cons.prems(2), of "allowed @ [prefix]"] Inr show ?thesis by simp
  qed
qed

lemma buildServiceData_malformed:
  assumes "malformedSettings e svc"
  shows "\<exists>err. settingsError e err \<and> buildServiceData e cfg rand svc ports = Inl err"
proof (cases "parseIdleTimeout e svc")
  case (Inl err)
  then have "ParseDuration e (annotation svc idleTimeoutAnnotation) = Inl err"
    by (auto simp: parseIdleTimeout_def split: if_splits sum.splits)
  then have "settingsError e err" unfolding settingsError_def by blast
  moreover from Inl have "buildServiceData e cfg rand svc ports = Inl err"
    by (simp add: buildServiceData_def)
  ultimately show ?thesis by blast
next
  case (Inr idle)
  then have "\<not> (annotation svc idleTimeoutAnnotation \<noteq> [] \<and>
      isl (ParseDuration e (annotation svc idleTimeoutAnnotation)))"
    by (auto simp: parseIdleTimeout_def split: if_splits sum.splits)
  with assms obtain r where "r \<in> set (svc_LoadBalancerSourceRanges svc)"
    and "isl (ParsePrefix e r)"
    unfolding malformedSettings_def by blast
  from parseSourceRanges_malformed [OF this, of "[]"] obtain r' err where
    "ParsePrefix e r' = Inl err"
    and "parseSourceRanges e (svc_LoadBalancerSourceRanges svc) [] = Inl err"
    by blast
  with Inr have "settingsError e err \<and> buildServiceData e cfg rand svc ports = Inl err"
    unfolding settingsError_def by (auto simp: buildServiceData_def)
  then show ?thesis ..
qed

text \<open>
  C3, as the code has it. Let the Service be found with malformed settings. Then the pass
  leaves the registry as it was and does not call \<^verbatim>\<open>UpdateService\<close>. When moreover the
  Service is eligible and none of its accepted ports conflicts, \<^verbatim>\<open>Reconcile\<close> fails with
  the error of the parser, having done nothing but start \<^verbatim>\<open>buildServiceData\<close>.
\<close>

theorem Reconcile_malformed_settings_fail_without_commit:
  assumes "GetService e req = Inr svc" and "malformedSettings e svc"
    and "Reconcile e cfg rand req w = (w', res, err)"
  shows "graph w' = graph w \<and>
         (\<exists>new. trace w' = trace w @ new \<and> \<not> list_ex isUpdateService new \<and>
            (shouldManage cfg svc \<and> (\<forall>p\<in>set (getServicePorts svc). \<not> Conflicts (graph w) req p)
             \<longrightarrow> new = [CallBuildServiceData req] \<and> (\<exists>x. err = Some x \<and> settingsError e x)))"
proof (cases "shouldManage cfg svc")
  case False
  with assms(1,3) have "w' = w" by (simp add: Reconcile_def)
  with False show ?thesis by simp
next
  case True
  from buildServiceData_malformed [OF assms(2)] obtain x where
    x: "settingsError e x"
    and b: "buildServiceData e cfg rand svc (getServicePorts svc) = Inl x"
    by blast
  show ?thesis
  proof (cases "firstConflict (graph w) req (getServicePorts svc)")
    case (Some port)
    then have "\<not> (\<forall>p\<in>set (getServicePorts svc). \<not> Conflicts (graph w) req p)"
      using firstConflict_None [of "graph w" req "getServicePorts svc"] by simp
    moreover from assms(1,3) True Some
    have "graph w' = graph w \<and> trace w' = trace w @
        [Eventf svc ''Warning'' ''Conflict''
           ''Service could not be allocated due to a conflicting port %v'' port]"
      by (auto simp: Reconcile_def act_def)
    ultimately show ?thesis by (simp add: isUpdateService_def)
  next
    case None
    with assms(1,3) True b
    have "graph w' = graph w \<and> trace w' = trace w @ [CallBuildServiceData req] \<and> err = Some x"
      by (auto simp: Reconcile_def act_def Let_def)
    with x show ?thesis by (simp add: isUpdateService_def)
  qed
qed

lemma ex_idle_annotation: "annotation (ex_svc (ex_idle v) ranges) idleTimeoutAnnotation = v"
  by (simp add: annotation_def idleTimeoutAnnotation_def ex_idle_def ex_svc_def)

lemma ex_30x_malformed:
  "malformedSettings (ex_env (ex_svc (ex_idle ''30x'') []) [] [] None) (ex_svc (ex_idle ''30x'') [])"
  by (simp add: malformedSettings_def ex_idle_annotation) (simp add: ex_env_def ex_duration_def)

lemma ex_30x_reconcile:
  "Reconcile (ex_env (ex_svc (ex_idle ''30x'') []) [] [] None) (ex_cfg AddressSourcePod) (\<lambda>p. 0)
     ex_web \<lparr>graph = emptyGraph, trace = []\<rparr> =
   (\<lparr>graph = emptyGraph, trace = [CallBuildServiceData ex_web]\<rparr>, \<lparr>RequeueAfter = 0\<rparr>,
    Some (ParseDurationError ''30x''))"
proof -
  have "firstConflict emptyGraph ex_web [ServicePort 80 TCP] = None"
    by (simp add: emptyGraph_def Conflicts_def)
  moreover have "buildServiceData (ex_env (ex_svc (ex_idle ''30x'') []) [] [] None)
      (ex_cfg AddressSourcePod) (\<lambda>p. 0) (ex_svc (ex_idle ''30x'') []) [ServicePort 80 TCP] =
      Inl (ParseDurationError ''30x'')"
    by (simp add: buildServiceData_def parseIdleTimeout_def ex_idle_annotation)
       (simp add: ex_env_def ex_duration_def)
  ultimately show ?thesis
    by (simp add: Reconcile_def ex_GetService ex_shouldManage ex_getServicePorts act_def)
qed

text \<open>
  The annotation \<^verbatim>\<open>idle-timeout="30x"\<close> on an eligible Service without conflicts: the pass
  fails with the error of \<^verbatim>\<open>time.ParseDuration\<close> and the registry stays empty.
\<close>

theorem Reconcile_malformed_settings_fail_without_commit_witness:
  "GetService (ex_env (ex_svc (ex_idle ''30x'') []) [] [] None) ex_web =
     Inr (ex_svc (ex_idle ''30x'') []) \<and>
   malformedSettings (ex_env (ex_svc (ex_idle ''30x'') []) [] [] None)
     (ex_svc (ex_idle ''30x'') []) \<and>
   Reconcile (ex_env (ex_svc (ex_idle ''30x'') []) [] [] None) (ex_cfg AddressSourcePod) (\<lambda>p. 0)
     ex_web \<lparr>graph = emptyGraph, trace = []\<rparr> =
   (\<lparr>graph = emptyGraph, trace = [CallBuildServiceData ex_web]\<rparr>, \<lparr>RequeueAfter = 0\<rparr>,
    Some (ParseDurationError ''30x'')) \<and>
   settingsError (ex_env (ex_svc (ex_idle ''30x'') []) [] [] None) (ParseDurationError ''30x'')"
proof -
  let ?svc = "ex_svc (ex_idle ''30x'') []"
  let ?e = "ex_env ?svc [] [] None"
  have free: "\<forall>p\<in>set (getServicePorts ?svc).
      \<not> Conflicts (graph \<lparr>graph = emptyGraph, trace = []\<rparr>) ex_web p"
    by (simp add: emptyGraph_def Conflicts_def)
  from Reconcile_malformed_settings_fail_without_commit
    [OF ex_GetService ex_30x_malformed ex_30x_reconcile]
  obtain new where "shouldManage (ex_cfg AddressSourcePod) ?svc \<and>
      (\<forall>p\<in>set (getServicePorts ?svc).
          \<not> Conflicts (graph \<lparr>graph = emptyGraph, trace = []\<rparr>) ex_web p) \<longrightarrow>
      new = [CallBuildServiceData ex_web] \<and>
      (\<exists>x. Some (ParseDurationError ''30x'') = Some x \<and> settingsError ?e x)"
    by blast
  with ex_shouldManage free have "settingsError ?e (ParseDurationError ''30x'')"
    by simp
  with ex_GetService [of "ex_idle ''30x''" "[]" "[]" "[]" None] ex_30x_malformed ex_30x_reconcile
  show ?thesis by (intro conjI) assumption+
qed

text \<open>
  C3 fails as stated, at three Services whose idle-timeout annotation holds a string that
  is not a parseable duration. (1) The annotation is present and empty: the code takes an
  empty value for an absent one, the pass succeeds and commits the data with no idle
  timeout. (2) The annotation is \<^verbatim>\<open>30x\<close> and port 80/TCP is held by another Service: the
  pass ends in the conflict branch, with a requeue and no error. (3) The annotation is
  \<^verbatim>\<open>30x\<close> on a Service of type ClusterIP: the pass returns at once, without error.
\<close>

theorem Reconcile_unparseable_idle_timeout_without_failure:
  "map_of (svc_Annotations (ex_svc (ex_idle []) [])) idleTimeoutAnnotation = Some [] \<and>
   ParseDuration (ex_env (ex_svc (ex_idle []) []) [] [] None) [] = Inl (ParseDurationError []) \<and>
   Reconcile (ex_env (ex_svc (ex_idle []) []) [] [] None) (ex_cfg AddressSourcePod) (\<lambda>p. 0)
     ex_web \<lparr>graph = emptyGraph, trace = []\<rparr> =
   (\<lparr>graph = UpdateService emptyGraph ex_web [(ServicePort 80 TCP, ex_portData)],
     trace = [CallBuildServiceData ex_web,
              CallUpdateService ex_web [(ServicePort 80 TCP, ex_portData)],
              CallStatusUpdate ((ex_svc (ex_idle []) [])\<lparr>svc_Ingress :=
                 [\<lparr>lbi_IP = ''192.0.2.1'', lbi_Hostname = []\<rparr>]\<rparr>)]\<rparr>,
    \<lparr>RequeueAfter = 0\<rparr>, None) \<and>
   owners (UpdateService emptyGraph ex_web [(ServicePort 80 TCP, ex_portData)]) ex_web =
     Some [(ServicePort 80 TCP, ex_portData)] \<and>
   ParseDuration (ex_env (ex_svc (ex_idle ''30x'') []) [] [] None) ''30x'' =
     Inl (ParseDurationError ''30x'') \<and>
   Reconcile (ex_env (ex_svc (ex_idle ''30x'') []) [] [] None) (ex_cfg AddressSourcePod) (\<lambda>p. 0)
     ex_web \<lparr>graph = ex_graph, trace = []\<rparr> =
   (\<lparr>graph = ex_graph,
     trace = [Eventf (ex_svc (ex_idle ''30x'') []) ''Warning'' ''Conflict''
                ''Service could not be allocated due to a conflicting port %v''
                (ServicePort 80 TCP)]\<rparr>,
    \<lparr>RequeueAfter = 60000000000\<rparr>, None) \<and>
   annotation ex_clusterIP idleTimeoutAnnotation = ''30x'' \<and>
   Reconcile (ex_env ex_clusterIP [] [] None) (ex_cfg AddressSourcePod) (\<lambda>p. 0)
     ex_web \<lparr>graph = emptyGraph, trace = []\<rparr> =
   (\<lparr>graph = emptyGraph, trace = []\<rparr>, \<lparr>RequeueAfter = 0\<rparr>, None)"
proof -
  let ?cfg = "ex_cfg AddressSourcePod"
  have a1: "map_of (svc_Annotations (ex_svc (ex_idle []) [])) idleTimeoutAnnotation = Some []"
    by (simp add: idleTimeoutAnnotation_def ex_idle_def ex_svc_def)
  have a2: "ParseDuration (ex_env (ex_svc (ex_idle []) []) [] [] None) [] =
      Inl (ParseDurationError [])"
    by (simp add: ex_env_def ex_duration_def)
  have b: "buildServiceData (ex_env (ex_svc (ex_idle []) []) [] [] None) ?cfg (\<lambda>p. 0)
      (ex_svc (ex_idle []) []) (getServicePorts (ex_svc (ex_idle []) [])) =
      Inr [(ServicePort 80 TCP, ex_portData)]"
    unfolding ex_getServicePorts
    by (simp add: buildServiceData_def parseIdleTimeout_def ex_idle_annotation)
       (simp add: reconcile_defs ex_portData_def ex_defs resolver_defs ex_idle_def)
  have free: "\<forall>p\<in>set (getServicePorts (ex_svc (ex_idle []) [])).
      \<not> Conflicts (graph \<lparr>graph = emptyGraph, trace = []\<rparr>) ex_web p"
    by (simp add: emptyGraph_def Conflicts_def)
  have a3: "Reconcile (ex_env (ex_svc (ex_idle []) []) [] [] None) ?cfg (\<lambda>p. 0)
     ex_web \<lparr>graph = emptyGraph, trace = []\<rparr> =
   (\<lparr>graph = UpdateService emptyGraph ex_web [(ServicePort 80 TCP, ex_portData)],
     trace = [CallBuildServiceData ex_web,
              CallUpdateService ex_web [(ServicePort 80 TCP, ex_portData)],
              CallStatusUpdate ((ex_svc (ex_idle []) [])\<lparr>svc_Ingress :=
                 [\<lparr>lbi_IP = ''192.0.2.1'', lbi_Hostname = []\<rparr>]\<rparr>)]\<rparr>,
    \<lparr>RequeueAfter = 0\<rparr>, None)"
    using Reconcile_commit [OF ex_GetService ex_shouldManage free b]
    by (simp add: ex_env_def ex_cfg_def ingressOf_def)
  have a4: "owners (UpdateService emptyGraph ex_web [(ServicePort 80 TCP, ex_portData)]) ex_web =
     Some [(ServicePort 80 TCP, ex_portData)]"
    by (simp add: UpdateService_def emptyGraph_def Conflicts_def)
  have a5: "ParseDuration (ex_env (ex_svc (ex_idle ''30x'') []) [] [] None) ''30x'' =
     Inl (ParseDurationError ''30x'')"
    by (simp add: ex_env_def ex_duration_def)
  have a6: "Reconcile (ex_env (ex_svc (ex_idle ''30x'') []) [] [] None) ?cfg (\<lambda>p. 0)
     ex_web \<lparr>graph = ex_graph, trace = []\<rparr> =
   (\<lparr>graph = ex_graph,
     trace = [Eventf (ex_svc (ex_idle ''30x'') []) ''Warning'' ''Conflict''
                ''Service could not be allocated due to a conflicting port %v''
                (ServicePort 80 TCP)]\<rparr>,
    \<lparr>RequeueAfter = 60000000000\<rparr>, None)"
    by (simp add: Reconcile_def ex_GetService ex_shouldManage ex_getServicePorts
          ex_graph_conflict act_def Minute_def)
  have a7: "annotation ex_clusterIP idleTimeoutAnnotation = ''30x''"
    by (simp add: annotation_def idleTimeoutAnnotation_def ex_idle_def ex_svc_def
          ex_clusterIP_def)
  have a8: "Reconcile (ex_env ex_clusterIP [] [] None) ?cfg (\<lambda>p. 0)
     ex_web \<lparr>graph = emptyGraph, trace = []\<rparr> =
   (\<lparr>graph = emptyGraph, trace = []\<rparr>, \<lparr>RequeueAfter = 0\<rparr>, None)"
    by (simp add: Reconcile_def shouldManage_def ex_env_def ex_clusterIP_def ex_svc_def
          ex_web_def)
  from a1 a2 a3 a4 a5 a6 a7 a8 show ?thesis by (intro conjI) assumption+
qed

subsection \<open>Every enumeration order is a seed\<close>

text \<open>
  The model of the runtime leaves no order out: every permutation of a map's entries is
  \<open>range_map seed\<close> of them for some seed, a list already in order is left as it is by
  \<open>sort_Slice\<close>, and so every arrangement of the ready keys in ascending order of address
  is the result of the resolver at some seed. What is proved for all seeds holds for
  whatever order the map is enumerated in and whatever \<^verbatim>\<open>sort.Slice\<close> does with equal
  addresses.
\<close>

lemma range_map_length: "length (range_map seed xs) = length xs"
  using mset_range_map [of seed xs] by (rule mset_eq_length)

lemma range_map_complete: "mset ys = mset xs \<Longrightarrow> \<exists>seed. range_map seed xs = ys"
proof (induction xs arbitrary: ys)
  case Nil
  then show ?case by simp
next
  case (Cons x xs)
  from Cons.prems have "x \<in> set ys"
    by (metis list.set_intros(1) mset_eq_setD)
  then obtain as bs where ys: "ys = as @ x # bs"
    by (auto dest: split_list)
  with Cons.prems have ms: "mset (as @ bs) = mset xs" by simp
  then obtain seed' where s': "range_map seed' xs = as @ bs"
    using Cons.IH by blast
  from ms have len: "length as + length bs = length xs"
    by (metis length_append mset_eq_length)
  let ?n = "Suc (length xs)"
  let ?seed = "seed' * ?n + length as"
  from len have lt: "length as < ?n" by simp
  have dm: "(s * n + a) mod n = a \<and> (s * n + a) div n = s" if "a < n" for s n a :: nat
    using that by simp
  from dm [OF lt, of seed'] have "?seed mod ?n = length as" and "?seed div ?n = seed'"
    by blast+
  then have "range_map ?seed (x # xs) = insert_at (length as) x (as @ bs)"
    using s' by simp
  also have "\<dots> = ys" by (simp add: insert_at_def ys)
  finally show ?case by blast
qed

lemma foldl_insert_left_sorted:
  "sorted_wrt (\<lambda>a b. \<not> lt b a) (rev acc @ xs) \<Longrightarrow>
   foldl (\<lambda>acc x. insert_left lt x acc) acc xs = rev xs @ acc"
proof (induction xs arbitrary: acc)
  case Nil
  show ?case by simp
next
  case (Cons x xs)
  from Cons.prems have "\<forall>a\<in>set acc. \<not> lt x a"
    by (auto simp: sorted_wrt_append)
  then have "insert_left lt x acc = x # acc"
    by (cases acc) simp_all
  moreover from Cons.prems have "sorted_wrt (\<lambda>a b. \<not> lt b a) (rev (x # acc) @ xs)"
    by simp
  ultimately show ?case using Cons.IH [of "x # acc"] by simp
qed

lemma sort_Slice_sorted: "sorted_wrt (\<lambda>a b. \<not> lt b a) xs \<Longrightarrow> sort_Slice lt xs = xs"
  using foldl_insert_left_sorted [of lt "[]" xs] by (simp add: sort_Slice_def)

lemma emitEndpoints_reaches_every_sorted_order:
  assumes ms: "mset ks = mset (map fst (filter snd m))"
    and sorted: "sorted_wrt (\<lambda>a b. \<not> Less (Addr b) (Addr a)) ks"
  shows "\<exists>seed. emitEndpoints seed proto m = map (\<lambda>ip. ServiceEndpoint ip proto) ks"
proof -
  let ?zs = "map (\<lambda>k. (k, True)) ks @ filter (\<lambda>p. \<not> snd p) m"
  have "map (\<lambda>k. (k, True)) (map fst (filter snd m)) = filter snd m"
    by (induction m) auto
  then have "mset (filter snd m) = image_mset (\<lambda>k. (k, True)) (mset (map fst (filter snd m)))"
    by (metis mset_map)
  with ms have "mset (map (\<lambda>k. (k, True)) ks) = mset (filter snd m)"
    by simp
  then have "mset ?zs = mset m"
    by simp
  then obtain seed where seed: "range_map seed m = ?zs"
    using range_map_complete by blast
  have "map fst (filter snd ?zs) = ks"
    by (simp add: filter_map comp_def)
  with seed sorted show ?thesis
    by (auto simp: emitEndpoints_def sort_Slice_sorted intro!: exI [of _ seed])
qed

end
